theory Spec2Isabelle
  imports Main "HOL-Library.AList" "HOL-Library.Char_ord" "HOL-Library.List_Lexorder"
    "HOL-Library.Multiset"
begin

section \<open>Python string operations used by the two scripts\<close>

text \<open>
  Paths, keywords and file names are Python \<open>str\<close> values. They are modelled as
  \<^typ>\<open>string\<close>; the model covers ASCII text, which is what OpenAPI path templates
  consist of. \<open>str.lower\<close> maps \<open>A\<close>..\<open>Z\<close> to \<open>a\<close>..\<open>z\<close> and leaves every other
  ASCII character alone.
\<close>

definition lower_char :: "char \<Rightarrow> char" where
  "lower_char c =
     (let n = (of_char c :: nat) in if 65 \<le> n \<and> n \<le> 90 then char_of (n + 32) else c)"

definition lower :: "string \<Rightarrow> string" where
  "lower s = map lower_char s"

definition upper_char :: "char \<Rightarrow> char" where
  "upper_char c =
     (let n = (of_char c :: nat) in if 97 \<le> n \<and> n \<le> 122 then char_of (n - 32) else c)"

definition upper :: "string \<Rightarrow> string" where
  "upper s = map upper_char s"

text \<open>\<open>s.startswith(kw)\<close> and the substring test \<open>kw in s\<close>.\<close>

fun startswith :: "string \<Rightarrow> string \<Rightarrow> bool" where
  "startswith s [] = True"
| "startswith [] (k # kw) = False"
| "startswith (c # s) (k # kw) = (c = k \<and> startswith s kw)"

fun str_in :: "string \<Rightarrow> string \<Rightarrow> bool" where
  "str_in kw [] = (kw = [])"
| "str_in kw (c # s) = (startswith (c # s) kw \<or> str_in kw s)"

text \<open>\<open>s.replace(old, new)\<close> for single-character \<open>old\<close> and \<open>new\<close>.\<close>

definition replace_char :: "char \<Rightarrow> char \<Rightarrow> string \<Rightarrow> string" where
  "replace_char old new s = map (\<lambda>c. if c = old then new else c) s"

text \<open>\<open>s.strip(chars)\<close>: drop every leading and every trailing character that is in \<open>chars\<close>.\<close>

definition strip :: "string \<Rightarrow> string \<Rightarrow> string" where
  "strip chars s =
     rev (dropWhile (\<lambda>c. c \<in> set chars) (rev (dropWhile (\<lambda>c. c \<in> set chars) s)))"

section \<open>The OpenAPI document\<close>

text \<open>
  \<open>json.load\<close> yields the document as nested Python values. The scripts read the top-level
  keys \<open>paths\<close> and \<open>info\<close>; under \<open>paths\<close> each path maps HTTP method names to operation
  objects, of which \<open>summary\<close>, \<open>description\<close> and \<open>tags\<close> are read. A key that is absent
  is \<open>None\<close> here; a dictionary is an association list in the document's key order.
  Response bodies are arbitrary JSON values; the scripts store them and never look inside,
  so numbers are kept as integers.
\<close>

datatype json =
    JNull
  | JBool bool
  | JNum int
  | JStr string
  | JArr "json list"
  | JObj "(string \<times> json) list"

record operation_object =
  op_summary :: "string option"
  op_description :: "string option"
  op_tags :: "string list option"

type_synonym path_item = "(string \<times> operation_object) list"

type_synonym paths_object = "(string \<times> path_item) list"

record info_object =
  info_version :: "string option"

record api_document =
  doc_paths :: "paths_object option"
  doc_info :: "info_object option"

text \<open>
  An exception that no \<open>except\<close> clause catches ends the run. \<open>KeyError k\<close> is a failed
  subscript \<open>d[k]\<close>; the other three are exceptions that library calls inside the fetch
  loop can raise and that are not \<open>RequestException\<close>s.
\<close>

datatype py_error = KeyError string | RecursionError | ValueError | OSError

definition subscript :: "('v option) \<Rightarrow> string \<Rightarrow> py_error + 'v" where
  "subscript field k = (case field of None \<Rightarrow> Inl (KeyError k) | Some v \<Rightarrow> Inr v)"

text \<open>\<open>d.get(k, default)\<close> on an optional field.\<close>

definition dict_get :: "'v option \<Rightarrow> 'v \<Rightarrow> 'v" where
  "dict_get field dflt = (case field of None \<Rightarrow> dflt | Some v \<Rightarrow> v)"

text \<open>The \<open>endpoint_info\<close> dictionary both scripts build for every GET operation.\<close>

record endpoint_info =
  path :: string
  summary :: string
  description :: string
  tags :: "string list"

definition base_url :: string where
  "base_url = ''http://astromele3.lan:1888/v2/api''"

section \<open>Classification in \<open>fetch_astromele3_combined.py\<close>\<close>

text \<open>Lines 14--23: the loop over \<open>api_spec['paths'].items()\<close>.\<close>

fun get_endpoints_combined :: "paths_object \<Rightarrow> endpoint_info list" where
  "get_endpoints_combined [] = []"
| "get_endpoints_combined ((p, methods) # rest) =
     (case map_of methods ''get'' of
        None \<Rightarrow> get_endpoints_combined rest
      | Some g \<Rightarrow>
          \<lparr>path = p,
           summary = dict_get (op_summary g) '''',
           description = dict_get (op_description g) '''',
           tags = dict_get (op_tags g) []\<rparr> # get_endpoints_combined rest)"

definition control_keywords_combined :: "string list" where
  "control_keywords_combined =
     [''connect'', ''disconnect'', ''set-'', ''change-'', ''add-'', ''remove-'',
      ''cool'', ''warm'', ''abort'', ''move'', ''slew'', ''park'', ''unpark'', ''home'',
      ''start'', ''stop'', ''open'', ''close'', ''sync'', ''flip'', ''reverse'',
      ''clear'', ''rescan'', ''switch'', ''edit'', ''reset'', ''load'', ''capture'',
      ''solve'', ''determine'', ''auto-focus'']"

text \<open>Line 44: \<open>any(keyword in path.lower() for keyword in control_keywords)\<close>.\<close>

definition is_control_combined :: "string \<Rightarrow> bool" where
  "is_control_combined p =
     list_ex (\<lambda>keyword. str_in keyword (lower p)) control_keywords_combined"

text \<open>Lines 37--46: the filter loop.\<close>

fun status_endpoints_combined :: "endpoint_info list \<Rightarrow> endpoint_info list" where
  "status_endpoints_combined [] = []"
| "status_endpoints_combined (endpoint # rest) =
     (if CHR ''{'' \<in> set (path endpoint) then status_endpoints_combined rest
      else if \<not> is_control_combined (path endpoint)
        then endpoint # status_endpoints_combined rest
      else status_endpoints_combined rest)"

section \<open>Classification in \<open>fetch_status_endpoints.py\<close>\<close>

text \<open>Lines 14--23.\<close>

fun get_endpoints_status :: "paths_object \<Rightarrow> endpoint_info list" where
  "get_endpoints_status [] = []"
| "get_endpoints_status ((p, methods) # rest) =
     (case map_of methods ''get'' of
        None \<Rightarrow> get_endpoints_status rest
      | Some g \<Rightarrow>
          \<lparr>path = p,
           summary = dict_get (op_summary g) '''',
           description = dict_get (op_description g) '''',
           tags = dict_get (op_tags g) []\<rparr> # get_endpoints_status rest)"

definition control_keywords_status :: "string list" where
  "control_keywords_status =
     [''connect'', ''disconnect'', ''set-'', ''change-'', ''add-'', ''remove-'',
      ''cool'', ''warm'', ''abort'', ''move'', ''slew'', ''park'', ''unpark'', ''home'',
      ''start'', ''stop'', ''open'', ''close'', ''sync'', ''flip'', ''reverse'',
      ''clear'', ''rescan'', ''switch'', ''edit'', ''reset'', ''load'', ''capture'',
      ''solve'', ''determine'', ''auto-focus'']"

text \<open>Line 51.\<close>

definition is_control_status :: "string \<Rightarrow> bool" where
  "is_control_status p =
     list_ex (\<lambda>keyword. str_in keyword (lower p)) control_keywords_status"

text \<open>Lines 44--53.\<close>

fun status_endpoints_status :: "endpoint_info list \<Rightarrow> endpoint_info list" where
  "status_endpoints_status [] = []"
| "status_endpoints_status (endpoint # rest) =
     (if CHR ''{'' \<in> set (path endpoint) then status_endpoints_status rest
      else if \<not> is_control_status (path endpoint)
        then endpoint # status_endpoints_status rest
      else status_endpoints_status rest)"

section \<open>The HTTP client and the disk\<close>

text \<open>
  Both scripts call \<open>requests.get(url, timeout=10)\<close>, then \<open>response.raise_for_status()\<close>, then
  \<open>response.json()\<close>, inside \<open>try\<close> ... \<open>except requests.exceptions.RequestException\<close>. A
  call returns or raises; what it raises is a \<open>RequestException\<close>, which the \<open>except\<close> clause
  catches, or some other exception, which it does not:
  \<^item> \<open>requests.get\<close> raises a \<open>RequestException\<close> on a transport failure (connection
    refused, timeout, bad URL);
  \<^item> \<open>raise_for_status\<close> raises \<open>HTTPError\<close> exactly when \<open>400 \<le> status_code < 600\<close>, which is
    the library's documented behaviour;
  \<^item> \<open>response.json()\<close> raises \<open>requests.exceptions.JSONDecodeError\<close>, a \<open>RequestException\<close>
    since requests 2.27, when the body is not JSON; on a body nested deeper than the
    interpreter's recursion limit it raises \<open>RecursionError\<close>, and on an integer literal
    longer than the interpreter's digit limit \<open>ValueError\<close>.
  The value of a \<open>request_exception\<close> stands for the message \<open>str(e)\<close> that the scripts
  record.
\<close>

datatype request_exception =
    TransportError string
  | HTTPError int
  | JSONDecodeError

datatype raised =
    RequestException request_exception
  | OtherException py_error

text \<open>
  A response has its status code and what \<open>response.json()\<close> does on it: return the parsed
  body or raise.
\<close>

record response =
  resp_status_code :: int
  resp_json :: "raised + json"

text \<open>
  The device and the network are outside the program: \<open>net n url\<close> is what the \<open>n\<close>-th
  \<open>requests.get\<close> of a run (counted from 0) does on \<open>url\<close>. So is the disk: \<open>dsk n name\<close> is
  what opening and writing the file \<open>name\<close> does after \<open>n\<close> GETs, \<open>None\<close> when it succeeds
  and the exception when it raises. Printing to the console is taken to succeed.
\<close>

type_synonym network = "nat \<Rightarrow> string \<Rightarrow> raised + response"

type_synonym disk = "nat \<Rightarrow> string \<Rightarrow> py_error option"

definition raise_for_status :: "response \<Rightarrow> raised + unit" where
  "raise_for_status r =
     (if 400 \<le> resp_status_code r \<and> resp_status_code r < 600
      then Inl (RequestException (HTTPError (resp_status_code r))) else Inr ())"

definition response_json :: "response \<Rightarrow> raised + json" where
  "response_json r = resp_json r"

text \<open>
  The first three statements of the \<open>try\<close> block, which the two scripts share; the first
  call that raises ends the block. \<open>issued\<close> lists the URLs requested so far: the call of
  \<open>requests.get\<close> is what adds the URL, and it is the \<open>length issued\<close>-th GET of the run.
\<close>

definition try_get ::
  "network \<Rightarrow> string list \<Rightarrow> string \<Rightarrow> string list \<times> (raised + (response \<times> json))" where
  "try_get net issued url =
     (issued @ [url],
      case net (length issued) url of
        Inl e \<Rightarrow> Inl e
      | Inr r \<Rightarrow>
          (case raise_for_status r of
             Inl e \<Rightarrow> Inl e
           | Inr _ \<Rightarrow>
               (case response_json r of
                  Inl e \<Rightarrow> Inl e
                | Inr d \<Rightarrow> Inr (r, d))))"

section \<open>The run of \<open>fetch_astromele3_combined.py\<close>\<close>

text \<open>
  \<open>combined_data['endpoints']\<close> maps an endpoint key to a dictionary with the keys
  \<open>_endpoint_info\<close>, \<open>_fetch_status\<close> and \<open>data\<close>. The entry is first assigned with
  \<open>_endpoint_info\<close> alone; the other two keys are stored after the fetch. An optional field
  is \<open>None\<close> while its key is missing; Python's \<open>None\<close> value of \<open>data\<close> is \<open>JNull\<close>.
  Timestamps (\<open>fetch_time\<close>, \<open>fetch_timestamp\<close>) are left out.
\<close>

record endpoint_doc =
  doc_path :: string
  doc_full_url :: string
  doc_summary :: string
  doc_description :: string
  doc_tags :: "string list"
  doc_method :: string
  doc_purpose :: string

record fetch_status =
  success :: bool
  status_code :: "int option"
  error :: "request_exception option"

record endpoint_entry =
  entry_endpoint_info :: endpoint_doc
  entry_fetch_status :: "fetch_status option"
  entry_data :: "json option"

record combined_state =
  endpoints :: "(string \<times> endpoint_entry) list"
  successful_count :: nat
  failed_count :: nat
  requests_log :: "string list"

definition endpoint_key_of :: "string \<Rightarrow> string" where
  "endpoint_key_of p = strip ''/'' p"

text \<open>Lines 92--100: the \<open>_endpoint_info\<close> dictionary of an endpoint.\<close>

definition endpoint_doc_of :: "endpoint_info \<Rightarrow> endpoint_doc" where
  "endpoint_doc_of endpoint =
     \<lparr>doc_path = path endpoint,
      doc_full_url = base_url @ path endpoint,
      doc_summary = summary endpoint,
      doc_description = description endpoint,
      doc_tags = tags endpoint,
      doc_method = ''GET (READ-ONLY)'',
      doc_purpose = ''Status/Information retrieval - does not modify equipment state''\<rparr>"

text \<open>
  Lines 84--130, the body of the loop for one endpoint. \<open>requests_log\<close> is the list of
  the URLs requested so far, in order. The result is the new state and, when an exception
  leaves the \<open>try\<close> statement uncaught, that exception.
\<close>

definition fetch_one_combined ::
  "network \<Rightarrow> endpoint_info \<Rightarrow> combined_state \<Rightarrow> combined_state \<times> py_error option" where
  "fetch_one_combined net endpoint st =
     (let p = path endpoint;
          url = base_url @ p;
          endpoint_key = endpoint_key_of p;
          created = AList.update endpoint_key
            \<lparr>entry_endpoint_info = endpoint_doc_of endpoint,
             entry_fetch_status = None, entry_data = None\<rparr> (endpoints st)
      in case try_get net (requests_log st) url of
           (issued, Inr (r, d)) \<Rightarrow>
             (st\<lparr>endpoints :=
                   AList.map_entry endpoint_key
                     (\<lambda>entry. entry\<lparr>entry_fetch_status :=
                                Some \<lparr>success = True,
                                      status_code = Some (resp_status_code r),
                                      error = None\<rparr>,
                              entry_data := Some d\<rparr>) created,
                 successful_count := successful_count st + 1,
                 requests_log := issued\<rparr>, None)
         | (issued, Inl (RequestException exc)) \<Rightarrow>
             (st\<lparr>endpoints :=
                   AList.map_entry endpoint_key
                     (\<lambda>entry. entry\<lparr>entry_fetch_status :=
                                Some \<lparr>success = False, status_code = None,
                                      error = Some exc\<rparr>,
                              entry_data := Some JNull\<rparr>) created,
                 failed_count := failed_count st + 1,
                 requests_log := issued\<rparr>, None)
         | (issued, Inl (OtherException err)) \<Rightarrow>
             (st\<lparr>endpoints := created, requests_log := issued\<rparr>, Some err))"

text \<open>Line 83: \<open>for endpoint in status_endpoints\<close>; an uncaught exception ends the loop.\<close>

fun fetch_loop_combined ::
  "network \<Rightarrow> endpoint_info list \<Rightarrow> combined_state \<Rightarrow> combined_state \<times> py_error option" where
  "fetch_loop_combined net [] st = (st, None)"
| "fetch_loop_combined net (endpoint # rest) st =
     (case fetch_one_combined net endpoint st of
        (st', Some err) \<Rightarrow> (st', Some err)
      | (st', None) \<Rightarrow> fetch_loop_combined net rest st')"

text \<open>Lines 76 and 80--81: the state before the loop.\<close>

definition combined_start :: combined_state where
  "combined_start =
     \<lparr>endpoints = [], successful_count = 0, failed_count = 0, requests_log = []\<rparr>"

subsection \<open>The text report\<close>

text \<open>Lines 192--193: \<open>tags[0] if tags else 'Other'\<close>; the key \<open>tags\<close> is always present.\<close>

definition category_of :: "endpoint_info \<Rightarrow> string" where
  "category_of endpoint = (case tags endpoint of [] \<Rightarrow> ''Other'' | t # _ \<Rightarrow> t)"

text \<open>Lines 190--196: the dictionary \<open>by_category\<close>, in insertion order.\<close>

fun group_by_category ::
  "endpoint_info list \<Rightarrow> (string \<times> endpoint_info list) list
     \<Rightarrow> (string \<times> endpoint_info list) list" where
  "group_by_category [] by_category = by_category"
| "group_by_category (endpoint # rest) by_category =
     (let category = category_of endpoint;
          present = (if map_of by_category category = None
                     then AList.update category [] by_category else by_category)
      in group_by_category rest
           (AList.map_entry category (\<lambda>l. l @ [endpoint]) present))"

text \<open>
  Lines 198--218. The report is a sequence of category blocks; a block has the category, the
  header text \<open>category.upper()\<close>, and one entry per endpoint. The status line of an entry is
  printed from the \<open>_fetch_status\<close> found under the endpoint's key, when the key is present.
  \<open>sorted(by_category.items())\<close> orders the pairs by category: the categories are the keys
  of a dictionary, so no two are equal and the second components are never compared.
  Python orders strings lexicographically by code point, as \<open>\<le>\<close> on \<^typ>\<open>string\<close> does.
\<close>

record report_entry =
  rep_path :: string
  rep_full_url :: string
  rep_summary :: string
  rep_description :: string
  rep_status :: "fetch_status option"

record report_block =
  block_category :: string
  block_header :: string
  block_entries :: "report_entry list"

definition report_entry_of ::
  "(string \<times> endpoint_entry) list \<Rightarrow> endpoint_info \<Rightarrow> report_entry" where
  "report_entry_of eps ep =
     \<lparr>rep_path = path ep,
      rep_full_url = base_url @ path ep,
      rep_summary = summary ep,
      rep_description = description ep,
      rep_status =
        (case map_of eps (endpoint_key_of (path ep)) of
           None \<Rightarrow> None
         | Some e \<Rightarrow> entry_fetch_status e)\<rparr>"

definition write_report ::
  "endpoint_info list \<Rightarrow> (string \<times> endpoint_entry) list \<Rightarrow> report_block list" where
  "write_report status_endpoints eps =
     map (\<lambda>(category, members).
            \<lparr>block_category = category,
             block_header = upper category,
             block_entries = map (report_entry_of eps) (sort_key path members)\<rparr>)
         (sort_key fst (group_by_category status_endpoints []))"

subsection \<open>The whole script\<close>

record combined_metadata =
  device_name :: string
  device_url :: string
  api_version :: string
  total_endpoints_in_api :: nat
  status_endpoints_fetched :: nat
  successful_fetches :: nat
  failed_fetches :: nat

record combined_output =
  out_metadata :: combined_metadata
  out_endpoints :: "(string \<times> endpoint_entry) list"
  out_report :: "report_block list"

text \<open>
  A run yields the URLs it requested and either the uncaught exception that ended it or
  what it wrote. Line 15 subscripts \<open>api_spec['paths']\<close>, line 59
  \<open>api_spec['info']['version']\<close>; the fetch loop starts at line 83; line 138 writes
  \<open>astromele3_status_combined.json\<close> and line 178 \<open>astromele3_endpoint_summary.txt\<close>.
\<close>

definition run_combined ::
  "network \<Rightarrow> disk \<Rightarrow> api_document \<Rightarrow> string list \<times> (py_error + combined_output)" where
  "run_combined net dsk api_spec =
     (case subscript (doc_paths api_spec) ''paths'' of
        Inl err \<Rightarrow> ([], Inl err)
      | Inr paths \<Rightarrow>
          (let get_endpoints = get_endpoints_combined paths;
               status_endpoints = status_endpoints_combined get_endpoints
           in case subscript (doc_info api_spec) ''info'' of
                Inl err \<Rightarrow> ([], Inl err)
              | Inr info \<Rightarrow>
                  (case subscript (info_version info) ''version'' of
                     Inl err \<Rightarrow> ([], Inl err)
                   | Inr version \<Rightarrow>
                       (case fetch_loop_combined net status_endpoints combined_start of
                          (st, Some err) \<Rightarrow> (requests_log st, Inl err)
                        | (st, None) \<Rightarrow>
                            (case dsk (length (requests_log st))
                                    ''astromele3_status_combined.json'' of
                               Some err \<Rightarrow> (requests_log st, Inl err)
                             | None \<Rightarrow>
                                 (case dsk (length (requests_log st))
                                         ''astromele3_endpoint_summary.txt'' of
                                    Some err \<Rightarrow> (requests_log st, Inl err)
                                  | None \<Rightarrow>
                                      (requests_log st,
                                       Inr \<lparr>out_metadata =
                                              \<lparr>device_name = ''astromele3'',
                                               device_url = base_url,
                                               api_version = version,
                                               total_endpoints_in_api = length get_endpoints,
                                               status_endpoints_fetched =
                                                 length status_endpoints,
                                               successful_fetches = successful_count st,
                                               failed_fetches = failed_count st\<rparr>,
                                            out_endpoints = endpoints st,
                                            out_report =
                                              write_report status_endpoints
                                                (endpoints st)\<rparr>)))))))"

section \<open>The run of \<open>fetch_status_endpoints.py\<close>\<close>

text \<open>Line 79: \<open>path.replace('/', '_').strip('_') + '.json'\<close>.\<close>

definition filename_of :: "string \<Rightarrow> string" where
  "filename_of p = strip ''_'' (replace_char CHR ''/'' CHR ''_'' p) @ ''.json''"

text \<open>
  An element of \<open>results\<close>: the keys \<open>endpoint\<close> and \<open>status\<close> are always there, \<open>filename\<close>
  and \<open>status_code\<close> on success, \<open>error\<close> on failure.
\<close>

record fetch_result =
  res_endpoint :: string
  res_status :: string
  res_filename :: "string option"
  res_status_code :: "int option"
  res_error :: "request_exception option"

text \<open>\<open>files\<close> maps the name of every file written so far to its content.\<close>

record status_state =
  results :: "fetch_result list"
  files :: "(string \<times> json) list"
  issued_requests :: "string list"

text \<open>
  Lines 75--112, the body of the loop for one endpoint. Lines 93--94 open and write the
  file inside the \<open>try\<close> statement, whose \<open>except\<close> clause does not catch what they raise.
  The result is the new state and, when an exception leaves the \<open>try\<close> statement
  uncaught, that exception.
\<close>

definition fetch_one_status ::
  "network \<Rightarrow> disk \<Rightarrow> endpoint_info \<Rightarrow> status_state \<Rightarrow> status_state \<times> py_error option" where
  "fetch_one_status net dsk endpoint st =
     (let p = path endpoint;
          url = base_url @ p;
          filename = filename_of p
      in case try_get net (issued_requests st) url of
           (issued, Inr (r, d)) \<Rightarrow>
             (case dsk (length issued) filename of
                Some err \<Rightarrow> (st\<lparr>issued_requests := issued\<rparr>, Some err)
              | None \<Rightarrow>
                  (st\<lparr>results := results st @
                        [\<lparr>res_endpoint = p, res_status = ''success'',
                          res_filename = Some filename,
                          res_status_code = Some (resp_status_code r),
                          res_error = None\<rparr>],
                      files := AList.update filename d (files st),
                      issued_requests := issued\<rparr>, None))
         | (issued, Inl (RequestException exc)) \<Rightarrow>
             (st\<lparr>results := results st @
                   [\<lparr>res_endpoint = p, res_status = ''error'',
                     res_filename = None, res_status_code = None,
                     res_error = Some exc\<rparr>],
                 issued_requests := issued\<rparr>, None)
         | (issued, Inl (OtherException err)) \<Rightarrow>
             (st\<lparr>issued_requests := issued\<rparr>, Some err))"

text \<open>Line 74: \<open>for endpoint in status_endpoints\<close>; an uncaught exception ends the loop.\<close>

fun fetch_loop_status ::
  "network \<Rightarrow> disk \<Rightarrow> endpoint_info list \<Rightarrow> status_state
     \<Rightarrow> status_state \<times> py_error option" where
  "fetch_loop_status net dsk [] st = (st, None)"
| "fetch_loop_status net dsk (endpoint # rest) st =
     (case fetch_one_status net dsk endpoint st of
        (st', Some err) \<Rightarrow> (st', Some err)
      | (st', None) \<Rightarrow> fetch_loop_status net dsk rest st')"

text \<open>Line 72: the state before the loop.\<close>

definition status_start :: status_state where
  "status_start = \<lparr>results = [], files = [], issued_requests = []\<rparr>"

text \<open>Lines 115--121, written to \<open>fetch_summary.json\<close> after the loop.\<close>

record fetch_summary =
  total_get_endpoints :: nat
  total_status_endpoints :: nat
  successful_fetches_s :: nat
  failed_fetches_s :: nat
  summary_results :: "fetch_result list"

record status_output =
  out_summary :: fetch_summary
  out_files :: "(string \<times> json) list"

text \<open>
  The script subscripts \<open>api_spec['paths']\<close> at line 15 and never reads \<open>info\<close>; the fetch
  loop starts at line 74; line 123 writes \<open>fetch_summary.json\<close>.
\<close>

definition run_status ::
  "network \<Rightarrow> disk \<Rightarrow> api_document \<Rightarrow> string list \<times> (py_error + status_output)" where
  "run_status net dsk api_spec =
     (case subscript (doc_paths api_spec) ''paths'' of
        Inl err \<Rightarrow> ([], Inl err)
      | Inr paths \<Rightarrow>
          (let get_endpoints = get_endpoints_status paths;
               status_endpoints = status_endpoints_status get_endpoints
           in case fetch_loop_status net dsk status_endpoints status_start of
                (st, Some err) \<Rightarrow> (issued_requests st, Inl err)
              | (st, None) \<Rightarrow>
                  (case dsk (length (issued_requests st)) ''fetch_summary.json'' of
                     Some err \<Rightarrow> (issued_requests st, Inl err)
                   | None \<Rightarrow>
                       (issued_requests st,
                        Inr \<lparr>out_summary =
                               \<lparr>total_get_endpoints = length get_endpoints,
                                total_status_endpoints = length status_endpoints,
                                successful_fetches_s =
                                  length (filter (\<lambda>r. res_status r = ''success'')
                                            (results st)),
                                failed_fetches_s =
                                  length (filter (\<lambda>r. res_status r = ''error'')
                                            (results st)),
                                summary_results = results st\<rparr>,
                             out_files = files st\<rparr>))))"

section \<open>A sample document\<close>

text \<open>
  A small \<open>paths\<close> mapping in the shape of the device's OpenAPI file, and a second one that
  declares the same paths with the same presence of \<open>get\<close> but other metadata and methods.
\<close>

definition demo_paths :: paths_object where
  "demo_paths =
     [(''/equipment/camera/info'',
         [(''get'', \<lparr>op_summary = Some ''Camera info'', op_description = None,
                     op_tags = Some [''Camera'']\<rparr>)]),
      (''/mount/slew/{ra}/{dec}'',
         [(''get'', \<lparr>op_summary = None, op_description = None, op_tags = None\<rparr>)]),
      (''/mount/park'',
         [(''get'', \<lparr>op_summary = Some ''Park'', op_description = None,
                     op_tags = Some [''Mount'']\<rparr>)]),
      (''/equipment/LoadFile'',
         [(''get'', \<lparr>op_summary = None, op_description = None, op_tags = None\<rparr>)]),
      (''/profile/set-value'',
         [(''post'', \<lparr>op_summary = None, op_description = None, op_tags = None\<rparr>)]),
      (''/sequence/state'',
         [(''get'', \<lparr>op_summary = None, op_description = Some ''State'',
                     op_tags = Some [''Sequence'']\<rparr>)])]"

definition demo_paths_alt :: paths_object where
  "demo_paths_alt =
     [(''/equipment/camera/info'',
         [(''put'', \<lparr>op_summary = None, op_description = None, op_tags = None\<rparr>),
          (''get'', \<lparr>op_summary = None, op_description = Some ''x'', op_tags = None\<rparr>)]),
      (''/mount/slew/{ra}/{dec}'',
         [(''get'', \<lparr>op_summary = Some ''Slew'', op_description = None,
                     op_tags = Some [''Mount'']\<rparr>)]),
      (''/mount/park'',
         [(''get'', \<lparr>op_summary = None, op_description = None, op_tags = Some []\<rparr>)]),
      (''/equipment/LoadFile'',
         [(''get'', \<lparr>op_summary = None, op_description = None,
                     op_tags = Some [''Equipment'', ''Files'']\<rparr>)]),
      (''/profile/set-value'', []),
      (''/sequence/state'',
         [(''get'', \<lparr>op_summary = Some ''Sequence state'', op_description = None,
                     op_tags = None\<rparr>),
          (''delete'', \<lparr>op_summary = None, op_description = None, op_tags = None\<rparr>)])]"

text \<open>Four paths without braces or blocklisted words that differ in slashes and underscores.\<close>

definition demo_slash_paths :: paths_object where
  "demo_slash_paths =
     [(''/image/history'',
         [(''get'', \<lparr>op_summary = Some ''first'', op_description = None, op_tags = None\<rparr>)]),
      (''/image/history/'',
         [(''get'', \<lparr>op_summary = Some ''second'', op_description = None, op_tags = None\<rparr>)]),
      (''image/history/'',
         [(''get'', \<lparr>op_summary = Some ''third'', op_description = None, op_tags = None\<rparr>)]),
      (''/image_history'',
         [(''get'', \<lparr>op_summary = Some ''fourth'', op_description = None, op_tags = None\<rparr>)])]"

text \<open>Documents around these mappings: complete, without \<open>info.version\<close>, without \<open>info\<close>.\<close>

definition demo_document :: api_document where
  "demo_document =
     \<lparr>doc_paths = Some demo_paths, doc_info = Some \<lparr>info_version = Some ''2.2.11''\<rparr>\<rparr>"

definition demo_document_no_version :: api_document where
  "demo_document_no_version =
     \<lparr>doc_paths = Some demo_paths, doc_info = Some \<lparr>info_version = None\<rparr>\<rparr>"

definition demo_document_no_info :: api_document where
  "demo_document_no_info = \<lparr>doc_paths = Some demo_paths, doc_info = None\<rparr>"

definition demo_document_no_paths :: api_document where
  "demo_document_no_paths =
     \<lparr>doc_paths = None, doc_info = Some \<lparr>info_version = Some ''2.2.11''\<rparr>\<rparr>"

definition demo_slash_document :: api_document where
  "demo_slash_document =
     \<lparr>doc_paths = Some demo_slash_paths, doc_info = Some \<lparr>info_version = Some ''2.2.11''\<rparr>\<rparr>"

text \<open>
  A device that times out on \<open>/sequence/state\<close> and answers every other URL with status 200
  and a JSON body; one that answers every URL with status 300 and a JSON body; and one whose
  every answer has status 200 and a body on which \<open>response.json()\<close> raises
  \<open>RecursionError\<close>.
\<close>

definition demo_network :: network where
  "demo_network n url =
     (if url = base_url @ ''/sequence/state''
      then Inl (RequestException (TransportError ''timed out''))
      else Inr \<lparr>resp_status_code = 200,
                resp_json = Inr (JObj [(''Success'', JBool True)])\<rparr>)"

definition demo_network_300 :: network where
  "demo_network_300 n url = Inr \<lparr>resp_status_code = 300, resp_json = Inr (JObj [])\<rparr>"

definition demo_network_deep :: network where
  "demo_network_deep n url =
     Inr \<lparr>resp_status_code = 200, resp_json = Inl (OtherException RecursionError)\<rparr>"

text \<open>A disk on which every write succeeds, and one on which none does.\<close>

definition demo_disk :: disk where
  "demo_disk n name = None"

definition demo_disk_full :: disk where
  "demo_disk_full n name = Some OSError"

text \<open>A document whose operations have several tags, one tag, an empty tag list and none.\<close>

definition demo_report_document :: api_document where
  "demo_report_document =
     \<lparr>doc_paths = Some
        [(''/version'',
            [(''get'', \<lparr>op_summary = None, op_description = None,
                        op_tags = Some [''Application'']\<rparr>)]),
         (''/time'',
            [(''get'', \<lparr>op_summary = None, op_description = None, op_tags = None\<rparr>)]),
         (''/equipment/mount/info'',
            [(''get'', \<lparr>op_summary = None, op_description = None,
                        op_tags = Some [''Equipment'', ''Mount'']\<rparr>)]),
         (''/equipment/camera/info'',
            [(''get'', \<lparr>op_summary = None, op_description = None,
                        op_tags = Some [''Equipment'']\<rparr>)]),
         (''/equipment/dome/info'',
            [(''get'', \<lparr>op_summary = None, op_description = None, op_tags = Some []\<rparr>)])],
      doc_info = Some \<lparr>info_version = Some ''2.2.11''\<rparr>\<rparr>"

section \<open>Facts about the string operations\<close>

lemma startswith_iff: "startswith s kw \<longleftrightarrow> (\<exists>post. s = kw @ post)"
  by (induction s kw rule: startswith.induct) auto

lemma str_in_iff: "str_in kw s \<longleftrightarrow> (\<exists>pre post. s = pre @ kw @ post)"
proof (induction s)
  case Nil
  show ?case by auto
next
  case (Cons c s)
  show ?case
  proof
    assume "str_in kw (c # s)"
    then consider "startswith (c # s) kw" | "str_in kw s" by auto
    then show "\<exists>pre post. c # s = pre @ kw @ post"
    proof cases
      case 1
      then obtain post where "c # s = kw @ post" by (auto simp: startswith_iff)
      then have "c # s = [] @ kw @ post" by simp
      then show ?thesis by blast
    next
      case 2
      then obtain pre post where "s = pre @ kw @ post" using Cons.IH by blast
      then have "c # s = (c # pre) @ kw @ post" by simp
      then show ?thesis by blast
    qed
  next
    assume "\<exists>pre post. c # s = pre @ kw @ post"
    then obtain pre post where eq: "c # s = pre @ kw @ post" by blast
    show "str_in kw (c # s)"
    proof (cases pre)
      case Nil
      with eq have "startswith (c # s) kw" by (auto simp: startswith_iff)
      then show ?thesis by simp
    next
      case (Cons d pre')
      with eq have "s = pre' @ kw @ post" by simp
      then have "str_in kw s" using Cons.IH by blast
      then show ?thesis by simp
    qed
  qed
qed

section \<open>Facts about classification\<close>

lemma status_endpoints_combined_filter:
  "status_endpoints_combined eps =
     filter (\<lambda>e. CHR ''{'' \<notin> set (path e) \<and> \<not> is_control_combined (path e)) eps"
  by (induction eps) auto

lemma status_endpoints_status_filter:
  "status_endpoints_status eps =
     filter (\<lambda>e. CHR ''{'' \<notin> set (path e) \<and> \<not> is_control_status (path e)) eps"
  by (induction eps) auto

lemma paths_get_endpoints_combined:
  "map path (get_endpoints_combined ps) =
     map fst (filter (\<lambda>pm. map_of (snd pm) ''get'' \<noteq> None) ps)"
  by (induction ps rule: get_endpoints_combined.induct) (auto split: option.splits)

lemma paths_get_endpoints_status:
  "map path (get_endpoints_status ps) =
     map fst (filter (\<lambda>pm. map_of (snd pm) ''get'' \<noteq> None) ps)"
  by (induction ps rule: get_endpoints_status.induct) (auto split: option.splits)

lemma is_control_combined_iff:
  "is_control_combined p \<longleftrightarrow>
     (\<exists>kw \<in> set control_keywords_combined. \<exists>pre post. lower p = pre @ kw @ post)"
  by (simp add: is_control_combined_def list_ex_iff str_in_iff)

lemma is_control_status_iff:
  "is_control_status p \<longleftrightarrow>
     (\<exists>kw \<in> set control_keywords_status. \<exists>pre post. lower p = pre @ kw @ post)"
  by (simp add: is_control_status_def list_ex_iff str_in_iff)

lemma classified_combined_path:
  "e \<in> set (status_endpoints_combined eps) \<Longrightarrow>
     CHR ''{'' \<notin> set (path e) \<and> \<not> is_control_combined (path e)"
  by (simp add: status_endpoints_combined_filter)

lemma classified_status_path:
  "e \<in> set (status_endpoints_status eps) \<Longrightarrow>
     CHR ''{'' \<notin> set (path e) \<and> \<not> is_control_status (path e)"
  by (simp add: status_endpoints_status_filter)

section \<open>Facts about the HTTP client and the fetch loops\<close>

lemma try_get_issued: "fst (try_get net issued url) = issued @ [url]"
  by (simp add: try_get_def)

lemma try_get_eq:
  "try_get net issued url = (a, b) \<longleftrightarrow>
     a = issued @ [url] \<and> b = snd (try_get net issued url)"
  by (cases "try_get net issued url") (auto simp: try_get_def)

lemma try_get_status:
  "snd (try_get net issued url) = Inr (r, d) \<Longrightarrow>
     \<not> (400 \<le> resp_status_code r \<and> resp_status_code r < 600)"
  by (auto simp: try_get_def raise_for_status_def split: sum.splits if_splits)

text \<open>Only \<open>requests.get\<close> and \<open>response.json()\<close> can raise what the scripts do not catch.\<close>

lemma try_get_other:
  assumes "snd (try_get net issued url) = Inl (OtherException err)"
  shows "net (length issued) url = Inl (OtherException err) \<or>
         (\<exists>r. net (length issued) url = Inr r \<and> resp_json r = Inl (OtherException err))"
  using assms
  by (auto simp: try_get_def raise_for_status_def response_json_def
      split: sum.splits if_splits)

lemma map_of_store: "map_of (AList.map_entry k f (AList.update k v al)) = (map_of al)(k \<mapsto> f v)"
  by (simp add: map_of_map_entry update_conv' fun_eq_iff)

lemma keys_store:
  "fst ` set (AList.map_entry k f (AList.update k v al)) = insert k (fst ` set al)"
  by (simp add: dom_map_entry dom_update)

lemma distinct_store:
  "distinct (map fst al) \<Longrightarrow> distinct (map fst (AList.map_entry k f (AList.update k v al)))"
  by (simp add: distinct_map_entry distinct_update)

lemma map_entry_keys: "map fst (AList.map_entry k f al) = map fst al"
  by (induction al) auto

lemma keylist_store:
  "k \<notin> fst ` set al \<Longrightarrow>
     map fst (AList.map_entry k f (AList.update k v al)) = map fst al @ [k]"
  by (simp add: map_entry_keys update_keys)

subsection \<open>The loop of \<open>fetch_astromele3_combined.py\<close>\<close>

lemma fetch_one_combined_unfold:
  "fetch_one_combined net ep st =
     (case snd (try_get net (requests_log st) (base_url @ path ep)) of
        Inr (r, d) \<Rightarrow>
          (st\<lparr>endpoints :=
                AList.map_entry (endpoint_key_of (path ep))
                  (\<lambda>entry. entry\<lparr>entry_fetch_status :=
                             Some \<lparr>success = True,
                                   status_code = Some (resp_status_code r),
                                   error = None\<rparr>,
                           entry_data := Some d\<rparr>)
                  (AList.update (endpoint_key_of (path ep))
                     \<lparr>entry_endpoint_info = endpoint_doc_of ep,
                      entry_fetch_status = None, entry_data = None\<rparr> (endpoints st)),
              successful_count := successful_count st + 1,
              requests_log := requests_log st @ [base_url @ path ep]\<rparr>, None)
      | Inl (RequestException exc) \<Rightarrow>
          (st\<lparr>endpoints :=
                AList.map_entry (endpoint_key_of (path ep))
                  (\<lambda>entry. entry\<lparr>entry_fetch_status :=
                             Some \<lparr>success = False, status_code = None,
                                   error = Some exc\<rparr>,
                           entry_data := Some JNull\<rparr>)
                  (AList.update (endpoint_key_of (path ep))
                     \<lparr>entry_endpoint_info = endpoint_doc_of ep,
                      entry_fetch_status = None, entry_data = None\<rparr> (endpoints st)),
              failed_count := failed_count st + 1,
              requests_log := requests_log st @ [base_url @ path ep]\<rparr>, None)
      | Inl (OtherException err) \<Rightarrow>
          (st\<lparr>endpoints :=
                AList.update (endpoint_key_of (path ep))
                  \<lparr>entry_endpoint_info = endpoint_doc_of ep,
                   entry_fetch_status = None, entry_data = None\<rparr> (endpoints st),
              requests_log := requests_log st @ [base_url @ path ep]\<rparr>, Some err))"
  by (auto simp: fetch_one_combined_def Let_def try_get_eq
      split: prod.splits sum.splits raised.splits)

lemma one_combined_log:
  "requests_log (fst (fetch_one_combined net ep st)) = requests_log st @ [base_url @ path ep]"
  by (auto simp: fetch_one_combined_unfold split: sum.splits raised.splits)

lemma one_combined_counts:
  "fetch_one_combined net ep st = (st', None) \<Longrightarrow>
     successful_count st' + failed_count st' = Suc (successful_count st + failed_count st)"
  by (auto simp: fetch_one_combined_unfold split: sum.splits raised.splits)

lemma one_combined_keys:
  "fst ` set (endpoints (fst (fetch_one_combined net ep st))) =
     insert (endpoint_key_of (path ep)) (fst ` set (endpoints st))"
  by (auto simp: fetch_one_combined_unfold keys_store dom_update
      split: sum.splits raised.splits)

lemma one_combined_distinct:
  "distinct (map fst (endpoints st)) \<Longrightarrow>
     distinct (map fst (endpoints (fst (fetch_one_combined net ep st))))"
  by (auto simp: fetch_one_combined_unfold distinct_store distinct_update
      split: sum.splits raised.splits)

lemma one_combined_keylist:
  "fetch_one_combined net ep st = (st', None) \<Longrightarrow>
   endpoint_key_of (path ep) \<notin> fst ` set (endpoints st) \<Longrightarrow>
     map fst (endpoints st') = map fst (endpoints st) @ [endpoint_key_of (path ep)]"
  by (auto simp: fetch_one_combined_unfold keylist_store split: sum.splits raised.splits)

text \<open>What one iteration stores under the endpoint's key.\<close>

lemma one_combined_entry:
  assumes "fetch_one_combined net ep st = (st', None)"
  shows
  "(\<exists>sc d. \<not> (400 \<le> sc \<and> sc < 600) \<and>
      map_of (endpoints st') =
        (map_of (endpoints st))(endpoint_key_of (path ep) \<mapsto>
           \<lparr>entry_endpoint_info = endpoint_doc_of ep,
            entry_fetch_status =
              Some \<lparr>success = True, status_code = Some sc, error = None\<rparr>,
            entry_data = Some d\<rparr>)) \<or>
   (\<exists>exc.
      map_of (endpoints st') =
        (map_of (endpoints st))(endpoint_key_of (path ep) \<mapsto>
           \<lparr>entry_endpoint_info = endpoint_doc_of ep,
            entry_fetch_status =
              Some \<lparr>success = False, status_code = None, error = Some exc\<rparr>,
            entry_data = Some JNull\<rparr>))"
proof (cases "snd (try_get net (requests_log st) (base_url @ path ep))")
  case (Inl raised)
  show ?thesis
  proof (cases raised)
    case (RequestException exc)
    have "map_of (endpoints st') =
        (map_of (endpoints st))(endpoint_key_of (path ep) \<mapsto>
           \<lparr>entry_endpoint_info = endpoint_doc_of ep,
            entry_fetch_status =
              Some \<lparr>success = False, status_code = None, error = Some exc\<rparr>,
            entry_data = Some JNull\<rparr>)"
      using assms Inl RequestException
      by (auto simp: fetch_one_combined_unfold map_of_store)
    then show ?thesis by blast
  next
    case (OtherException err)
    then show ?thesis
      using assms Inl by (auto simp: fetch_one_combined_unfold)
  qed
next
  case (Inr rd)
  obtain r d where rd: "rd = (r, d)" by (cases rd)
  have ok: "\<not> (400 \<le> resp_status_code r \<and> resp_status_code r < 600)"
    using Inr rd try_get_status by blast
  have "map_of (endpoints st') =
        (map_of (endpoints st))(endpoint_key_of (path ep) \<mapsto>
           \<lparr>entry_endpoint_info = endpoint_doc_of ep,
            entry_fetch_status =
              Some \<lparr>success = True, status_code = Some (resp_status_code r), error = None\<rparr>,
            entry_data = Some d\<rparr>)"
    using assms Inr rd
    by (auto simp: fetch_one_combined_unfold map_of_store)
  then show ?thesis using ok by blast
qed

lemma one_combined_completes:
  assumes "\<And>err. snd (try_get net (requests_log st) (base_url @ path ep))
             \<noteq> Inl (OtherException err)"
  shows "snd (fetch_one_combined net ep st) = None"
  using assms
  by (auto simp: fetch_one_combined_unfold split: sum.splits raised.splits)

lemma loop_combined_step:
  assumes "fetch_loop_combined net (ep # eps) st = (st', None)"
  obtains st1 where "fetch_one_combined net ep st = (st1, None)"
    and "fetch_loop_combined net eps st1 = (st', None)"
proof -
  obtain st1 res where one: "fetch_one_combined net ep st = (st1, res)"
    by (cases "fetch_one_combined net ep st")
  with assms have "res = None" and "fetch_loop_combined net eps st1 = (st', None)"
    by (auto split: option.splits)
  with one that show ?thesis by blast
qed

lemma loop_combined_log:
  "fetch_loop_combined net eps st = (st', None) \<Longrightarrow>
     requests_log st' = requests_log st @ map (\<lambda>e. base_url @ path e) eps"
proof (induction eps arbitrary: st)
  case Nil
  then show ?case by simp
next
  case (Cons ep eps)
  from Cons.prems obtain st1 where one: "fetch_one_combined net ep st = (st1, None)"
    and rest: "fetch_loop_combined net eps st1 = (st', None)"
    by (rule loop_combined_step)
  have "requests_log st1 = requests_log st @ [base_url @ path ep]"
    using one_combined_log [of net ep st] one by simp
  then show ?case using Cons.IH [OF rest] by simp
qed

text \<open>Whether the loop ends normally or not, it has requested an initial segment.\<close>

lemma loop_combined_log_prefix:
  "\<exists>k. requests_log (fst (fetch_loop_combined net eps st)) =
         requests_log st @ take k (map (\<lambda>e. base_url @ path e) eps)"
proof (induction eps arbitrary: st)
  case Nil
  show ?case by simp
next
  case (Cons ep eps)
  obtain st1 res where one: "fetch_one_combined net ep st = (st1, res)"
    by (cases "fetch_one_combined net ep st")
  have log1: "requests_log st1 = requests_log st @ [base_url @ path ep]"
    using one_combined_log [of net ep st] one by simp
  show ?case
  proof (cases res)
    case (Some err)
    have "requests_log (fst (fetch_loop_combined net (ep # eps) st)) =
            requests_log st @ take 1 (map (\<lambda>e. base_url @ path e) (ep # eps))"
      using one Some log1 by simp
    then show ?thesis by blast
  next
    case None
    obtain k where "requests_log (fst (fetch_loop_combined net eps st1)) =
         requests_log st1 @ take k (map (\<lambda>e. base_url @ path e) eps)"
      using Cons.IH by blast
    then have "requests_log (fst (fetch_loop_combined net (ep # eps) st)) =
            requests_log st @ take (Suc k) (map (\<lambda>e. base_url @ path e) (ep # eps))"
      using one None log1 by simp
    then show ?thesis by blast
  qed
qed

lemma loop_combined_counts:
  "fetch_loop_combined net eps st = (st', None) \<Longrightarrow>
     successful_count st' + failed_count st' =
       successful_count st + failed_count st + length eps"
proof (induction eps arbitrary: st)
  case Nil
  then show ?case by simp
next
  case (Cons ep eps)
  from Cons.prems obtain st1 where one: "fetch_one_combined net ep st = (st1, None)"
    and rest: "fetch_loop_combined net eps st1 = (st', None)"
    by (rule loop_combined_step)
  show ?case
    using Cons.IH [OF rest] one_combined_counts [OF one] by simp
qed

lemma loop_combined_distinct:
  "fetch_loop_combined net eps st = (st', None) \<Longrightarrow> distinct (map fst (endpoints st)) \<Longrightarrow>
     distinct (map fst (endpoints st'))"
proof (induction eps arbitrary: st)
  case Nil
  then show ?case by simp
next
  case (Cons ep eps)
  from Cons.prems(1) obtain st1 where one: "fetch_one_combined net ep st = (st1, None)"
    and rest: "fetch_loop_combined net eps st1 = (st', None)"
    by (rule loop_combined_step)
  have "distinct (map fst (endpoints st1))"
    using one_combined_distinct [OF Cons.prems(2), of net ep] one by simp
  then show ?case using Cons.IH [OF rest] by simp
qed

lemma loop_combined_keys:
  "fetch_loop_combined net eps st = (st', None) \<Longrightarrow>
     fst ` set (endpoints st') =
       fst ` set (endpoints st) \<union> (\<lambda>e. endpoint_key_of (path e)) ` set eps"
proof (induction eps arbitrary: st)
  case Nil
  then show ?case by simp
next
  case (Cons ep eps)
  from Cons.prems obtain st1 where one: "fetch_one_combined net ep st = (st1, None)"
    and rest: "fetch_loop_combined net eps st1 = (st', None)"
    by (rule loop_combined_step)
  have "fst ` set (endpoints st1) = insert (endpoint_key_of (path ep)) (fst ` set (endpoints st))"
    using one_combined_keys [of net ep st] one by simp
  then show ?case using Cons.IH [OF rest] by simp
qed

text \<open>When no two endpoints share a key, the keys are stored in the order of the loop.\<close>

lemma loop_combined_keylist:
  assumes "fetch_loop_combined net eps st = (st', None)"
    and "distinct (map (\<lambda>e. endpoint_key_of (path e)) eps)"
    and "fst ` set (endpoints st) \<inter> (\<lambda>e. endpoint_key_of (path e)) ` set eps = {}"
  shows "map fst (endpoints st') =
           map fst (endpoints st) @ map (\<lambda>e. endpoint_key_of (path e)) eps"
  using assms
proof (induction eps arbitrary: st)
  case Nil
  then show ?case by simp
next
  case (Cons ep eps)
  from Cons.prems(1) obtain st1 where one: "fetch_one_combined net ep st = (st1, None)"
    and rest: "fetch_loop_combined net eps st1 = (st', None)"
    by (rule loop_combined_step)
  have new: "endpoint_key_of (path ep) \<notin> fst ` set (endpoints st)"
    using Cons.prems(3) by auto
  have keys1: "map fst (endpoints st1) = map fst (endpoints st) @ [endpoint_key_of (path ep)]"
    by (rule one_combined_keylist [OF one new])
  have "fst ` set (endpoints st1) = insert (endpoint_key_of (path ep)) (fst ` set (endpoints st))"
    using one_combined_keys [of net ep st] one by simp
  then have disj: "fst ` set (endpoints st1) \<inter> (\<lambda>e. endpoint_key_of (path e)) ` set eps = {}"
    using Cons.prems(2,3) by auto
  have "distinct (map (\<lambda>e. endpoint_key_of (path e)) eps)"
    using Cons.prems(2) by simp
  from Cons.IH [OF rest this disj] show ?case
    by (simp add: keys1)
qed

text \<open>A property of entries that every store of the loop establishes holds of every entry.\<close>

lemma loop_combined_entries:
  assumes "\<And>i sc d. \<not> (400 \<le> sc \<and> sc < 600) \<Longrightarrow>
           P \<lparr>entry_endpoint_info = i,
              entry_fetch_status = Some \<lparr>success = True, status_code = Some sc, error = None\<rparr>,
              entry_data = Some d\<rparr>"
    and "\<And>i exc.
           P \<lparr>entry_endpoint_info = i,
              entry_fetch_status = Some \<lparr>success = False, status_code = None, error = Some exc\<rparr>,
              entry_data = Some JNull\<rparr>"
    and "fetch_loop_combined net eps st = (st', None)"
    and "\<And>k e. map_of (endpoints st) k = Some e \<Longrightarrow> P e"
    and "map_of (endpoints st') k = Some e"
  shows "P e"
  using assms(3,4,5)
proof (induction eps arbitrary: st)
  case Nil
  then show ?case by simp
next
  case (Cons ep eps)
  from Cons.prems(1) obtain st1 where one: "fetch_one_combined net ep st = (st1, None)"
    and rest: "fetch_loop_combined net eps st1 = (st', None)"
    by (rule loop_combined_step)
  have "P e'" if "map_of (endpoints st1) k' = Some e'" for k' e'
    using one_combined_entry [OF one] that Cons.prems(2) assms(1,2)
    by (auto split: if_splits)
  then show ?case
    using Cons.IH [OF rest] Cons.prems(3) by blast
qed

text \<open>The entry under a key describes the last endpoint of the loop with that key.\<close>

lemma loop_combined_untouched:
  assumes "fetch_loop_combined net eps st = (st', None)"
    and "k \<notin> (\<lambda>e. endpoint_key_of (path e)) ` set eps"
  shows "map_of (endpoints st') k = map_of (endpoints st) k"
  using assms
proof (induction eps arbitrary: st)
  case Nil
  then show ?case by simp
next
  case (Cons ep eps)
  from Cons.prems(1) obtain st1 where one: "fetch_one_combined net ep st = (st1, None)"
    and rest: "fetch_loop_combined net eps st1 = (st', None)"
    by (rule loop_combined_step)
  have "map_of (endpoints st1) k = map_of (endpoints st) k"
    using one_combined_entry [OF one] Cons.prems(2) by auto
  then show ?case using Cons.IH [OF rest] Cons.prems(2) by simp
qed

lemma loop_combined_last_writer:
  assumes "fetch_loop_combined net eps st = (st', None)"
    and "map_of (endpoints st') k = Some e"
    and "filter (\<lambda>ep. endpoint_key_of (path ep) = k) eps \<noteq> []"
  shows "doc_path (entry_endpoint_info e) =
           path (last (filter (\<lambda>ep. endpoint_key_of (path ep) = k) eps))"
  using assms
proof (induction eps arbitrary: st)
  case Nil
  then show ?case by simp
next
  case (Cons ep eps)
  from Cons.prems(1) obtain st1 where one: "fetch_one_combined net ep st = (st1, None)"
    and rest: "fetch_loop_combined net eps st1 = (st', None)"
    by (rule loop_combined_step)
  let ?later = "filter (\<lambda>ep. endpoint_key_of (path ep) = k) eps"
  show ?case
  proof (cases "?later = []")
    case False
    then show ?thesis
      using Cons.IH [OF rest Cons.prems(2)] by simp
  next
    case True
    then have key: "endpoint_key_of (path ep) = k"
      using Cons.prems(3) by (auto split: if_splits)
    have notin: "k \<notin> (\<lambda>e. endpoint_key_of (path e)) ` set eps"
      using True by (auto simp: filter_empty_conv)
    have "map_of (endpoints st1) k = Some e"
      using loop_combined_untouched [OF rest notin] Cons.prems(2) by simp
    then have "doc_path (entry_endpoint_info e) = path ep"
      using one_combined_entry [OF one] key by (auto simp: endpoint_doc_of_def)
    then show ?thesis using True key by simp
  qed
qed

text \<open>The loop ends normally when nothing but \<open>RequestException\<close>s is raised.\<close>

lemma loop_combined_completes:
  assumes "\<And>issued url err. snd (try_get net issued url) \<noteq> Inl (OtherException err)"
  shows "snd (fetch_loop_combined net eps st) = None"
proof (induction eps arbitrary: st)
  case Nil
  show ?case by simp
next
  case (Cons ep eps)
  have "snd (fetch_one_combined net ep st) = None"
    by (rule one_combined_completes) (rule assms)
  then obtain st1 where "fetch_one_combined net ep st = (st1, None)"
    by (cases "fetch_one_combined net ep st") auto
  then show ?case using Cons.IH [of st1] by simp
qed

subsection \<open>The loop of \<open>fetch_status_endpoints.py\<close>\<close>

lemma fetch_one_status_unfold:
  "fetch_one_status net dsk ep st =
     (case snd (try_get net (issued_requests st) (base_url @ path ep)) of
        Inr (r, d) \<Rightarrow>
          (case dsk (Suc (length (issued_requests st))) (filename_of (path ep)) of
             Some err \<Rightarrow>
               (st\<lparr>issued_requests := issued_requests st @ [base_url @ path ep]\<rparr>, Some err)
           | None \<Rightarrow>
               (st\<lparr>results := results st @
                     [\<lparr>res_endpoint = path ep, res_status = ''success'',
                       res_filename = Some (filename_of (path ep)),
                       res_status_code = Some (resp_status_code r),
                       res_error = None\<rparr>],
                   files := AList.update (filename_of (path ep)) d (files st),
                   issued_requests := issued_requests st @ [base_url @ path ep]\<rparr>, None))
      | Inl (RequestException exc) \<Rightarrow>
          (st\<lparr>results := results st @
                [\<lparr>res_endpoint = path ep, res_status = ''error'',
                  res_filename = None, res_status_code = None,
                  res_error = Some exc\<rparr>],
              issued_requests := issued_requests st @ [base_url @ path ep]\<rparr>, None)
      | Inl (OtherException err) \<Rightarrow>
          (st\<lparr>issued_requests := issued_requests st @ [base_url @ path ep]\<rparr>, Some err))"
  by (auto simp: fetch_one_status_def Let_def try_get_eq
      split: prod.splits sum.splits raised.splits option.splits)

lemma one_status_log:
  "issued_requests (fst (fetch_one_status net dsk ep st)) =
     issued_requests st @ [base_url @ path ep]"
  by (auto simp: fetch_one_status_unfold split: sum.splits raised.splits option.splits)

text \<open>What one iteration appends to \<open>results\<close>.\<close>

lemma one_status_results:
  assumes "fetch_one_status net dsk ep st = (st', None)"
  shows
  "(\<exists>sc. \<not> (400 \<le> sc \<and> sc < 600) \<and>
      results st' = results st @
        [\<lparr>res_endpoint = path ep, res_status = ''success'',
          res_filename = Some (filename_of (path ep)), res_status_code = Some sc,
          res_error = None\<rparr>]) \<or>
   (\<exists>exc.
      results st' = results st @
        [\<lparr>res_endpoint = path ep, res_status = ''error'', res_filename = None,
          res_status_code = None, res_error = Some exc\<rparr>])"
proof (cases "snd (try_get net (issued_requests st) (base_url @ path ep))")
  case (Inl raised)
  show ?thesis
  proof (cases raised)
    case (RequestException exc)
    have "results st' = results st @
        [\<lparr>res_endpoint = path ep, res_status = ''error'', res_filename = None,
          res_status_code = None, res_error = Some exc\<rparr>]"
      using assms Inl RequestException
      by (auto simp: fetch_one_status_unfold)
    then show ?thesis by blast
  next
    case (OtherException err)
    then show ?thesis
      using assms Inl by (auto simp: fetch_one_status_unfold)
  qed
next
  case (Inr rd)
  obtain r d where rd: "rd = (r, d)" by (cases rd)
  have ok: "\<not> (400 \<le> resp_status_code r \<and> resp_status_code r < 600)"
    using Inr rd try_get_status by blast
  have "results st' = results st @
        [\<lparr>res_endpoint = path ep, res_status = ''success'',
          res_filename = Some (filename_of (path ep)),
          res_status_code = Some (resp_status_code r), res_error = None\<rparr>]"
    using assms Inr rd
    by (auto simp: fetch_one_status_unfold split: option.splits)
  then show ?thesis using ok by blast
qed

lemma one_status_completes:
  assumes "\<And>err. snd (try_get net (issued_requests st) (base_url @ path ep))
             \<noteq> Inl (OtherException err)"
    and "\<And>n name. dsk n name = None"
  shows "snd (fetch_one_status net dsk ep st) = None"
  using assms
  by (auto simp: fetch_one_status_unfold split: sum.splits raised.splits)

lemma loop_status_step:
  assumes "fetch_loop_status net dsk (ep # eps) st = (st', None)"
  obtains st1 where "fetch_one_status net dsk ep st = (st1, None)"
    and "fetch_loop_status net dsk eps st1 = (st', None)"
proof -
  obtain st1 res where one: "fetch_one_status net dsk ep st = (st1, res)"
    by (cases "fetch_one_status net dsk ep st")
  with assms have "res = None" and "fetch_loop_status net dsk eps st1 = (st', None)"
    by (auto split: option.splits)
  with one that show ?thesis by blast
qed

lemma loop_status_log:
  "fetch_loop_status net dsk eps st = (st', None) \<Longrightarrow>
     issued_requests st' = issued_requests st @ map (\<lambda>e. base_url @ path e) eps"
proof (induction eps arbitrary: st)
  case Nil
  then show ?case by simp
next
  case (Cons ep eps)
  from Cons.prems obtain st1 where one: "fetch_one_status net dsk ep st = (st1, None)"
    and rest: "fetch_loop_status net dsk eps st1 = (st', None)"
    by (rule loop_status_step)
  have "issued_requests st1 = issued_requests st @ [base_url @ path ep]"
    using one_status_log [of net dsk ep st] one by simp
  then show ?case using Cons.IH [OF rest] by simp
qed

lemma loop_status_log_prefix:
  "\<exists>k. issued_requests (fst (fetch_loop_status net dsk eps st)) =
         issued_requests st @ take k (map (\<lambda>e. base_url @ path e) eps)"
proof (induction eps arbitrary: st)
  case Nil
  show ?case by simp
next
  case (Cons ep eps)
  obtain st1 res where one: "fetch_one_status net dsk ep st = (st1, res)"
    by (cases "fetch_one_status net dsk ep st")
  have log1: "issued_requests st1 = issued_requests st @ [base_url @ path ep]"
    using one_status_log [of net dsk ep st] one by simp
  show ?case
  proof (cases res)
    case (Some err)
    have "issued_requests (fst (fetch_loop_status net dsk (ep # eps) st)) =
            issued_requests st @ take 1 (map (\<lambda>e. base_url @ path e) (ep # eps))"
      using one Some log1 by simp
    then show ?thesis by blast
  next
    case None
    obtain k where "issued_requests (fst (fetch_loop_status net dsk eps st1)) =
         issued_requests st1 @ take k (map (\<lambda>e. base_url @ path e) eps)"
      using Cons.IH by blast
    then have "issued_requests (fst (fetch_loop_status net dsk (ep # eps) st)) =
            issued_requests st @ take (Suc k) (map (\<lambda>e. base_url @ path e) (ep # eps))"
      using one None log1 by simp
    then show ?thesis by blast
  qed
qed

lemma loop_status_endpoints:
  "fetch_loop_status net dsk eps st = (st', None) \<Longrightarrow>
     map res_endpoint (results st') = map res_endpoint (results st) @ map path eps"
proof (induction eps arbitrary: st)
  case Nil
  then show ?case by simp
next
  case (Cons ep eps)
  from Cons.prems obtain st1 where one: "fetch_one_status net dsk ep st = (st1, None)"
    and rest: "fetch_loop_status net dsk eps st1 = (st', None)"
    by (rule loop_status_step)
  have "map res_endpoint (results st1) = map res_endpoint (results st) @ [path ep]"
    using one_status_results [OF one] by auto
  then show ?case using Cons.IH [OF rest] by simp
qed

lemma loop_status_results:
  assumes "\<And>p sc. \<not> (400 \<le> sc \<and> sc < 600) \<Longrightarrow>
           Q \<lparr>res_endpoint = p, res_status = ''success'',
              res_filename = Some (filename_of p), res_status_code = Some sc,
              res_error = None\<rparr>"
    and "\<And>p exc.
           Q \<lparr>res_endpoint = p, res_status = ''error'', res_filename = None,
              res_status_code = None, res_error = Some exc\<rparr>"
    and "fetch_loop_status net dsk eps st = (st', None)"
    and "\<And>r. r \<in> set (results st) \<Longrightarrow> Q r"
    and "r \<in> set (results st')"
  shows "Q r"
  using assms(3,4,5)
proof (induction eps arbitrary: st)
  case Nil
  then show ?case by simp
next
  case (Cons ep eps)
  from Cons.prems(1) obtain st1 where one: "fetch_one_status net dsk ep st = (st1, None)"
    and rest: "fetch_loop_status net dsk eps st1 = (st', None)"
    by (rule loop_status_step)
  have "Q r'" if "r' \<in> set (results st1)" for r'
    using one_status_results [OF one] that Cons.prems(2) assms(1,2) by auto
  then show ?case
    using Cons.IH [OF rest] Cons.prems(3) by blast
qed

lemma loop_status_completes:
  assumes "\<And>issued url err. snd (try_get net issued url) \<noteq> Inl (OtherException err)"
    and "\<And>n name. dsk n name = None"
  shows "snd (fetch_loop_status net dsk eps st) = None"
proof (induction eps arbitrary: st)
  case Nil
  show ?case by simp
next
  case (Cons ep eps)
  have "snd (fetch_one_status net dsk ep st) = None"
    by (rule one_status_completes) (rule assms)+
  then obtain st1 where "fetch_one_status net dsk ep st = (st1, None)"
    by (cases "fetch_one_status net dsk ep st") auto
  then show ?case using Cons.IH [of st1] by simp
qed

section \<open>Claims about classification\<close>

text \<open>
  C5. A path that contains the brace character \<open>{\<close> is never in the status subset, in
  either script, whatever else the path contains and whatever the rest of the document is.
\<close>

theorem brace_path_excluded:
  assumes "CHR ''{'' \<in> set p"
  shows "p \<notin> path ` set (status_endpoints_combined (get_endpoints_combined paths)) \<and>
         p \<notin> path ` set (status_endpoints_status (get_endpoints_status paths))"
  using assms classified_combined_path classified_status_path by blast

theorem brace_path_excluded_witness:
  "CHR ''{'' \<in> set ''/mount/slew/{ra}/{dec}'' \<and>
   ''/mount/slew/{ra}/{dec}'' \<in> fst ` set demo_paths \<and>
   ''/mount/slew/{ra}/{dec}''
      \<notin> path ` set (status_endpoints_combined (get_endpoints_combined demo_paths)) \<and>
   ''/mount/slew/{ra}/{dec}''
      \<notin> path ` set (status_endpoints_status (get_endpoints_status demo_paths))"
proof -
  have h: "CHR ''{'' \<in> set ''/mount/slew/{ra}/{dec}''" by simp
  have d: "''/mount/slew/{ra}/{dec}'' \<in> fst ` set demo_paths"
    by (simp add: demo_paths_def)
  show ?thesis using h d brace_path_excluded [OF h, of demo_paths] by blast
qed

text \<open>
  C4. If the lowercased path contains one of the thirty-one blocklisted substrings anywhere
  (\<open>lower p = pre @ kw @ post\<close> for arbitrary \<open>pre\<close> and \<open>post\<close>, so also in the middle of a
  word), the path is not in the status subset of either script.
\<close>

theorem blocklisted_path_excluded:
  assumes "kw \<in> set
     [''connect'', ''disconnect'', ''set-'', ''change-'', ''add-'', ''remove-'', ''cool'',
      ''warm'', ''abort'', ''move'', ''slew'', ''park'', ''unpark'', ''home'', ''start'',
      ''stop'', ''open'', ''close'', ''sync'', ''flip'', ''reverse'', ''clear'', ''rescan'',
      ''switch'', ''edit'', ''reset'', ''load'', ''capture'', ''solve'', ''determine'',
      ''auto-focus'']"
    and "lower p = pre @ kw @ post"
  shows "p \<notin> path ` set (status_endpoints_combined (get_endpoints_combined paths)) \<and>
         p \<notin> path ` set (status_endpoints_status (get_endpoints_status paths))"
proof -
  have c: "kw \<in> set control_keywords_combined"
    using assms(1) unfolding control_keywords_combined_def .
  have s: "kw \<in> set control_keywords_status"
    using assms(1) unfolding control_keywords_status_def .
  have "is_control_combined p"
    unfolding is_control_combined_iff using c assms(2) by blast
  moreover have "is_control_status p"
    unfolding is_control_status_iff using s assms(2) by blast
  ultimately show ?thesis
    using classified_combined_path classified_status_path by blast
qed

theorem blocklisted_path_excluded_witness:
  "lower ''/equipment/LoadFile'' = ''/equipment/'' @ ''load'' @ ''file'' \<and>
   ''/equipment/LoadFile'' \<in> fst ` set demo_paths \<and>
   ''/equipment/LoadFile''
      \<notin> path ` set (status_endpoints_combined (get_endpoints_combined demo_paths)) \<and>
   ''/equipment/LoadFile''
      \<notin> path ` set (status_endpoints_status (get_endpoints_status demo_paths))"
proof -
  have h: "lower ''/equipment/LoadFile'' = ''/equipment/'' @ ''load'' @ ''file''"
    by code_simp
  have d: "''/equipment/LoadFile'' \<in> fst ` set demo_paths"
    by (simp add: demo_paths_def)
  show ?thesis
    using h d blocklisted_path_excluded [OF _ h, of demo_paths] by simp
qed

text \<open>
  C8. The two scripts classify alike: on every \<open>paths\<close> mapping, GET extraction followed by
  the status filter gives the same sequence of operations (paths, order, and the defaults
  for summary, description and tags) in both.
\<close>

theorem scripts_classify_alike:
  "status_endpoints_combined (get_endpoints_combined paths) =
   status_endpoints_status (get_endpoints_status paths)"
proof -
  have g: "get_endpoints_combined ps = get_endpoints_status ps" for ps
    by (induction ps rule: get_endpoints_combined.induct) (auto split: option.splits)
  have k: "is_control_combined q = is_control_status q" for q
    by (simp add: is_control_combined_def is_control_status_def
        control_keywords_combined_def control_keywords_status_def)
  have "status_endpoints_combined eps = status_endpoints_status eps" for eps
    by (simp add: status_endpoints_combined_filter status_endpoints_status_filter k)
  then show ?thesis by (simp add: g)
qed

theorem scripts_classify_alike_witness:
  "status_endpoints_combined (get_endpoints_combined demo_paths) =
   status_endpoints_status (get_endpoints_status demo_paths) \<and>
   map path (status_endpoints_status (get_endpoints_status demo_paths)) =
     [''/equipment/camera/info'', ''/sequence/state'']"
proof -
  have "map path (status_endpoints_status (get_endpoints_status demo_paths)) =
     [''/equipment/camera/info'', ''/sequence/state'']"
    unfolding demo_paths_def by code_simp
  then show ?thesis using scripts_classify_alike [of demo_paths] by simp
qed

text \<open>
  C10. Classification looks at nothing but the path strings and whether each declares
  \<open>get\<close>: two \<open>paths\<close> mappings with the same path strings in the same order and the same
  presence of a \<open>get\<close> method at each position yield the same selected paths in the same
  order, however their summaries, descriptions, tags and other methods differ. This holds
  of both scripts.
\<close>

theorem classification_ignores_metadata:
  assumes "map fst paths1 = map fst paths2"
    and "map (\<lambda>pm. ''get'' \<in> fst ` set (snd pm)) paths1 =
         map (\<lambda>pm. ''get'' \<in> fst ` set (snd pm)) paths2"
  shows "map path (status_endpoints_status (get_endpoints_status paths1)) =
         map path (status_endpoints_status (get_endpoints_status paths2)) \<and>
         map path (status_endpoints_combined (get_endpoints_combined paths1)) =
         map path (status_endpoints_combined (get_endpoints_combined paths2))"
proof -
  have len: "length paths1 = length paths2"
    using assms(1) by (metis length_map)
  have sel: "map fst (filter (\<lambda>pm. map_of (snd pm) ''get'' \<noteq> None) paths1) =
             map fst (filter (\<lambda>pm. map_of (snd pm) ''get'' \<noteq> None) paths2)"
    using len assms
  proof (induction paths1 paths2 rule: list_induct2)
    case Nil
    show ?case by simp
  next
    case (Cons x xs y ys)
    from Cons.prems have "fst x = fst y"
      and "(''get'' \<in> fst ` set (snd x)) = (''get'' \<in> fst ` set (snd y))" by simp_all
    moreover have "(map_of (snd z) ''get'' \<noteq> None) = (''get'' \<in> fst ` set (snd z))"
      for z :: "string \<times> path_item"
      by (simp add: map_of_eq_None_iff)
    ultimately show ?case using Cons by simp
  qed
  have flt_s: "map path (status_endpoints_status eps) =
      filter (\<lambda>q. CHR ''{'' \<notin> set q \<and> \<not> is_control_status q) (map path eps)" for eps
    by (simp add: status_endpoints_status_filter filter_map comp_def)
  have flt_c: "map path (status_endpoints_combined eps) =
      filter (\<lambda>q. CHR ''{'' \<notin> set q \<and> \<not> is_control_combined q) (map path eps)" for eps
    by (simp add: status_endpoints_combined_filter filter_map comp_def)
  have "map path (status_endpoints_status (get_endpoints_status paths1)) =
        map path (status_endpoints_status (get_endpoints_status paths2))"
    unfolding flt_s paths_get_endpoints_status sel ..
  moreover have "map path (status_endpoints_combined (get_endpoints_combined paths1)) =
        map path (status_endpoints_combined (get_endpoints_combined paths2))"
    unfolding flt_c paths_get_endpoints_combined sel ..
  ultimately show ?thesis ..
qed

theorem classification_ignores_metadata_witness:
  "map fst demo_paths = map fst demo_paths_alt \<and>
   map (\<lambda>pm. ''get'' \<in> fst ` set (snd pm)) demo_paths =
     map (\<lambda>pm. ''get'' \<in> fst ` set (snd pm)) demo_paths_alt \<and>
   get_endpoints_status demo_paths \<noteq> get_endpoints_status demo_paths_alt \<and>
   map path (status_endpoints_status (get_endpoints_status demo_paths)) =
     map path (status_endpoints_status (get_endpoints_status demo_paths_alt)) \<and>
   map path (status_endpoints_combined (get_endpoints_combined demo_paths)) =
     map path (status_endpoints_combined (get_endpoints_combined demo_paths_alt))"
proof -
  have a: "map fst demo_paths = map fst demo_paths_alt"
    by (simp add: demo_paths_def demo_paths_alt_def)
  have b: "map (\<lambda>pm. ''get'' \<in> fst ` set (snd pm)) demo_paths =
     map (\<lambda>pm. ''get'' \<in> fst ` set (snd pm)) demo_paths_alt"
    by (simp add: demo_paths_def demo_paths_alt_def)
  have c: "get_endpoints_status demo_paths \<noteq> get_endpoints_status demo_paths_alt"
    by (simp add: demo_paths_def demo_paths_alt_def dict_get_def)
  show ?thesis using a b c classification_ignores_metadata [OF a b] by simp
qed

section \<open>File names and endpoint keys\<close>

lemma strip_map:
  assumes "\<And>c. c \<in> set s \<Longrightarrow> (f c \<in> set cs') = (c \<in> set cs)"
  shows "strip cs' (map f s) = map f (strip cs s)"
proof -
  have dw: "dropWhile (\<lambda>c. c \<in> set cs') (map f t) = map f (dropWhile (\<lambda>c. c \<in> set cs) t)"
    if "set t \<subseteq> set s" for t
    using that by (induction t) (auto simp: assms)
  have sub: "set (rev (dropWhile (\<lambda>c. c \<in> set cs) s)) \<subseteq> set s"
    using set_dropWhileD by fastforce
  have "strip cs' (map f s) =
        rev (dropWhile (\<lambda>c. c \<in> set cs') (map f (rev (dropWhile (\<lambda>c. c \<in> set cs) s))))"
    unfolding strip_def by (simp add: dw rev_map)
  also have "\<dots> = rev (map f (dropWhile (\<lambda>c. c \<in> set cs)
                              (rev (dropWhile (\<lambda>c. c \<in> set cs) s))))"
    by (simp only: dw [OF sub])
  also have "\<dots> = map f (strip cs s)"
    unfolding strip_def by (simp add: rev_map)
  finally show ?thesis .
qed

lemma set_strip_subset: "set (strip cs s) \<subseteq> set s"
  unfolding strip_def by (metis set_dropWhileD set_rev subsetI)

text \<open>
  C1 (counterexample). In \<open>demo_slash_paths\<close> all four paths are classified and pairwise
  distinct; the first and the third differ only in where the slashes stand; and all four
  get the file name \<open>image_history.json\<close>.
\<close>

theorem filename_collision:
  "map path (status_endpoints_status (get_endpoints_status demo_slash_paths)) =
     [''/image/history'', ''/image/history/'', ''image/history/'', ''/image_history''] \<and>
   distinct [''/image/history'', ''/image/history/'', ''image/history/'', ''/image_history''] \<and>
   filename_of ''/image/history'' = ''image_history.json'' \<and>
   filename_of ''/image/history/'' = ''image_history.json'' \<and>
   filename_of ''image/history/'' = ''image_history.json'' \<and>
   filename_of ''/image_history'' = ''image_history.json''"
  unfolding demo_slash_paths_def by code_simp

text \<open>
  C1 (amended). For paths that contain no underscore, the file name determines the path up
  to its leading and trailing slashes: two such paths get the same file name exactly when
  they are equal after \<open>strip('/')\<close>. So file names are injective over classified paths
  without underscores that have the same leading and trailing slashes.
\<close>

theorem filename_injective_up_to_slashes:
  assumes "CHR ''_'' \<notin> set p" and "CHR ''_'' \<notin> set q"
  shows "(filename_of p = filename_of q) = (strip ''/'' p = strip ''/'' q)"
proof -
  let ?f = "\<lambda>c. if c = CHR ''/'' then CHR ''_'' else c"
  have sp: "strip ''_'' (map ?f s) = map ?f (strip ''/'' s)" if "CHR ''_'' \<notin> set s" for s
    by (rule strip_map) (use that in auto)
  have inj: "map ?f s = map ?f t \<Longrightarrow> s = t"
    if "CHR ''_'' \<notin> set s" and "CHR ''_'' \<notin> set t" for s t
  proof -
    assume eq: "map ?f s = map ?f t"
    have "inj_on ?f (set s \<union> set t)"
      using that by (auto simp: inj_on_def split: if_splits)
    then show "s = t" using eq by (simp add: inj_on_map_eq_map)
  qed
  have ps: "CHR ''_'' \<notin> set (strip ''/'' p)" and qs: "CHR ''_'' \<notin> set (strip ''/'' q)"
    using assms set_strip_subset by fastforce+
  have "(filename_of p = filename_of q) =
        (map ?f (strip ''/'' p) = map ?f (strip ''/'' q))"
    by (simp add: filename_of_def replace_char_def sp assms)
  also have "\<dots> = (strip ''/'' p = strip ''/'' q)"
    using inj [OF ps qs] by auto
  finally show ?thesis .
qed

theorem filename_injective_up_to_slashes_witness:
  "CHR ''_'' \<notin> set ''/equipment/camera/info'' \<and> CHR ''_'' \<notin> set ''/equipment/camera'' \<and>
   strip ''/'' ''/equipment/camera/info'' \<noteq> strip ''/'' ''/equipment/camera'' \<and>
   filename_of ''/equipment/camera/info'' \<noteq> filename_of ''/equipment/camera''"
proof -
  have a: "CHR ''_'' \<notin> set ''/equipment/camera/info''" by simp
  have b: "CHR ''_'' \<notin> set ''/equipment/camera''" by simp
  have c: "strip ''/'' ''/equipment/camera/info'' \<noteq> strip ''/'' ''/equipment/camera''"
    by code_simp
  show ?thesis using a b c filename_injective_up_to_slashes [OF a b] by blast
qed

section \<open>Claims about whole runs\<close>

lemma run_combined_Inr:
  assumes "run_combined net dsk doc = (log, Inr out)"
  obtains paths v st where "doc_paths doc = Some paths"
    and "Option.bind (doc_info doc) info_version = Some v"
    and "fetch_loop_combined net (status_endpoints_combined (get_endpoints_combined paths))
           combined_start = (st, None)"
    and "log = requests_log st"
    and "out_endpoints out = endpoints st"
    and "out_report out =
           write_report (status_endpoints_combined (get_endpoints_combined paths)) (endpoints st)"
    and "successful_fetches (out_metadata out) = successful_count st"
    and "failed_fetches (out_metadata out) = failed_count st"
    and "status_endpoints_fetched (out_metadata out) =
           length (status_endpoints_combined (get_endpoints_combined paths))"
proof (cases "doc_paths doc")
  case None
  then show ?thesis using assms by (simp add: run_combined_def subscript_def)
next
  case (Some paths)
  note paths = this
  show ?thesis
  proof (cases "Option.bind (doc_info doc) info_version")
    case None
    then show ?thesis
      using assms paths
      by (auto simp: run_combined_def subscript_def Let_def split: option.splits)
  next
    case (Some v)
    obtain st res where loop:
      "fetch_loop_combined net (status_endpoints_combined (get_endpoints_combined paths))
         combined_start = (st, res)"
      by (cases "fetch_loop_combined net
            (status_endpoints_combined (get_endpoints_combined paths)) combined_start")
    have "res = None \<and> log = requests_log st \<and> out_endpoints out = endpoints st \<and>
          out_report out =
            write_report (status_endpoints_combined (get_endpoints_combined paths))
              (endpoints st) \<and>
          successful_fetches (out_metadata out) = successful_count st \<and>
          failed_fetches (out_metadata out) = failed_count st \<and>
          status_endpoints_fetched (out_metadata out) =
            length (status_endpoints_combined (get_endpoints_combined paths))"
      using assms paths Some loop
      by (auto simp: run_combined_def subscript_def Let_def split: option.splits)
    then show ?thesis using that [OF paths Some] loop by blast
  qed
qed

lemma run_combined_completes:
  assumes "doc_paths doc = Some paths"
    and "Option.bind (doc_info doc) info_version = Some v"
    and "fetch_loop_combined net (status_endpoints_combined (get_endpoints_combined paths))
           combined_start = (st, None)"
    and "\<And>n name. dsk n name = None"
  shows "\<exists>out. run_combined net dsk doc = (requests_log st, Inr out)"
proof -
  obtain info where "doc_info doc = Some info" and "info_version info = Some v"
    using assms(2) by (cases "doc_info doc") auto
  then show ?thesis
    using assms(1,3,4) by (simp add: run_combined_def subscript_def Let_def)
qed

lemma run_status_Inr:
  assumes "run_status net dsk doc = (log, Inr out)"
  obtains paths st where "doc_paths doc = Some paths"
    and "fetch_loop_status net dsk (status_endpoints_status (get_endpoints_status paths))
           status_start = (st, None)"
    and "log = issued_requests st"
    and "summary_results (out_summary out) = results st"
    and "successful_fetches_s (out_summary out) =
           length (filter (\<lambda>r. res_status r = ''success'') (results st))"
    and "failed_fetches_s (out_summary out) =
           length (filter (\<lambda>r. res_status r = ''error'') (results st))"
    and "total_status_endpoints (out_summary out) =
           length (status_endpoints_status (get_endpoints_status paths))"
proof (cases "doc_paths doc")
  case None
  then show ?thesis using assms by (simp add: run_status_def subscript_def)
next
  case (Some paths)
  obtain st res where loop:
    "fetch_loop_status net dsk (status_endpoints_status (get_endpoints_status paths))
       status_start = (st, res)"
    by (cases "fetch_loop_status net dsk
          (status_endpoints_status (get_endpoints_status paths)) status_start")
  have "res = None \<and> log = issued_requests st \<and>
        summary_results (out_summary out) = results st \<and>
        successful_fetches_s (out_summary out) =
           length (filter (\<lambda>r. res_status r = ''success'') (results st)) \<and>
        failed_fetches_s (out_summary out) =
           length (filter (\<lambda>r. res_status r = ''error'') (results st)) \<and>
        total_status_endpoints (out_summary out) =
           length (status_endpoints_status (get_endpoints_status paths))"
    using assms Some loop
    by (auto simp: run_status_def subscript_def Let_def split: option.splits)
  then show ?thesis using that [OF Some] loop by blast
qed

lemma run_status_completes:
  assumes "doc_paths doc = Some paths"
    and "fetch_loop_status net dsk (status_endpoints_status (get_endpoints_status paths))
           status_start = (st, None)"
    and "\<And>n name. dsk n name = None"
  shows "\<exists>out. run_status net dsk doc = (issued_requests st, Inr out)"
  using assms by (simp add: run_status_def subscript_def Let_def)

text \<open>
  C2 (counterexample). \<open>demo_document_no_info\<close> has no \<open>info\<close>, hence no \<open>info.version\<close>;
  \<open>fetch_status_endpoints.py\<close> still requests both classified endpoints and ends without
  an exception.
\<close>

theorem missing_version_not_fatal_per_endpoint:
  "doc_info demo_document_no_info = None \<and>
   fst (run_status demo_network demo_disk demo_document_no_info) =
     [''http://astromele3.lan:1888/v2/api/equipment/camera/info'',
      ''http://astromele3.lan:1888/v2/api/sequence/state''] \<and>
   \<not> isl (snd (run_status demo_network demo_disk demo_document_no_info))"
  unfolding demo_document_no_info_def demo_paths_def by code_simp

text \<open>
  C2 (amended). When the document lacks the top-level \<open>paths\<close> or lacks \<open>info.version\<close>,
  a run of \<open>fetch_astromele3_combined.py\<close> ends with an uncaught \<open>KeyError\<close> (for \<open>paths\<close>,
  \<open>info\<close> or \<open>version\<close>) and has issued no GET. A run of \<open>fetch_status_endpoints.py\<close> does
  so when \<open>paths\<close> is missing.
\<close>

theorem malformed_spec_aborts_before_fetching:
  assumes "doc_paths doc = None \<or> Option.bind (doc_info doc) info_version = None"
  shows "fst (run_combined net dsk doc) = [] \<and>
         snd (run_combined net dsk doc) \<in>
           {Inl (KeyError ''paths''), Inl (KeyError ''info''), Inl (KeyError ''version'')} \<and>
         (doc_paths doc = None \<longrightarrow> run_status net dsk doc = ([], Inl (KeyError ''paths'')))"
proof -
  have "run_combined net dsk doc = ([], Inl (KeyError ''paths'')) \<or>
        run_combined net dsk doc = ([], Inl (KeyError ''info'')) \<or>
        run_combined net dsk doc = ([], Inl (KeyError ''version''))"
    using assms
    by (auto simp: run_combined_def subscript_def Let_def split: option.splits)
  moreover have "doc_paths doc = None \<longrightarrow>
      run_status net dsk doc = ([], Inl (KeyError ''paths''))"
    by (simp add: run_status_def subscript_def)
  ultimately show ?thesis by auto
qed

theorem malformed_spec_aborts_before_fetching_witness:
  "Option.bind (doc_info demo_document_no_version) info_version = None \<and>
   run_combined demo_network demo_disk demo_document_no_version =
     ([], Inl (KeyError ''version'')) \<and>
   doc_paths demo_document_no_paths = None \<and>
   run_combined demo_network demo_disk demo_document_no_paths =
     ([], Inl (KeyError ''paths'')) \<and>
   run_status demo_network demo_disk demo_document_no_paths = ([], Inl (KeyError ''paths''))"
proof -
  have a: "Option.bind (doc_info demo_document_no_version) info_version = None"
    by (simp add: demo_document_no_version_def)
  have b: "doc_paths demo_document_no_paths = None"
    by (simp add: demo_document_no_paths_def)
  have c: "snd (run_combined demo_network demo_disk demo_document_no_version) =
      Inl (KeyError ''version'')"
    by (simp add: run_combined_def subscript_def demo_document_no_version_def)
  have d: "snd (run_combined demo_network demo_disk demo_document_no_paths) =
      Inl (KeyError ''paths'')"
    by (simp add: run_combined_def subscript_def demo_document_no_paths_def)
  show ?thesis
    using a b c d
      malformed_spec_aborts_before_fetching
        [of demo_document_no_version demo_network demo_disk]
      malformed_spec_aborts_before_fetching
        [of demo_document_no_paths demo_network demo_disk]
    by (simp add: prod_eq_iff)
qed

text \<open>
  C6 (counterexample). \<open>demo_paths\<close> has two classified endpoints. When the file for the
  first cannot be written, the \<open>OSError\<close> raised inside the \<open>try\<close> statement is not a
  \<open>RequestException\<close>: the per-endpoint run ends after one GET and writes no summary. The
  same happens in both scripts when \<open>response.json()\<close> raises \<open>RecursionError\<close> on the first
  body. And on \<open>demo_slash_paths\<close> the combined run ends normally with four classified
  endpoints and two stored outcomes.
\<close>

theorem run_can_end_early:
  "map path (status_endpoints_status (get_endpoints_status demo_paths)) =
     [''/equipment/camera/info'', ''/sequence/state''] \<and>
   run_status demo_network demo_disk_full demo_document =
     ([''http://astromele3.lan:1888/v2/api/equipment/camera/info''], Inl OSError) \<and>
   run_status demo_network_deep demo_disk demo_document =
     ([''http://astromele3.lan:1888/v2/api/equipment/camera/info''], Inl RecursionError) \<and>
   run_combined demo_network_deep demo_disk demo_document =
     ([''http://astromele3.lan:1888/v2/api/equipment/camera/info''], Inl RecursionError) \<and>
   \<not> isl (snd (run_combined demo_network demo_disk demo_slash_document)) \<and>
   status_endpoints_fetched
     (out_metadata (projr (snd (run_combined demo_network demo_disk demo_slash_document)))) = 4 \<and>
   length (out_endpoints
     (projr (snd (run_combined demo_network demo_disk demo_slash_document)))) = 2"
  by code_simp

text \<open>
  C6 (amended). On a document with \<open>paths\<close>:
  \<^item> in every run that ends normally, the GETs issued are exactly the URLs of the classified
    endpoints, each once, in order, and the number of successes plus the number of failures
    is the number of classified endpoints; the per-endpoint script has one result per
    classified endpoint, in order; the combined script has one entry per classified
    endpoint, in order, when no two classified paths strip to the same key;
  \<^item> a run ends normally when no library call raises anything but a \<open>RequestException\<close> and
    every write succeeds (the combined script needs \<open>info.version\<close> too), however many
    \<open>RequestException\<close>s are raised;
  \<^item> every run, also one that ends early, has requested an initial segment of the
    classified URLs.
\<close>

theorem completed_run_fetched_every_endpoint_once:
  assumes "doc_paths doc = Some paths"
  shows
    "(\<forall>log out. run_combined net dsk doc = (log, Inr out) \<longrightarrow>
        log = map (\<lambda>e. base_url @ path e)
                (status_endpoints_combined (get_endpoints_combined paths)) \<and>
        successful_fetches (out_metadata out) + failed_fetches (out_metadata out) =
          length (status_endpoints_combined (get_endpoints_combined paths)) \<and>
        status_endpoints_fetched (out_metadata out) =
          length (status_endpoints_combined (get_endpoints_combined paths)) \<and>
        (distinct (map (\<lambda>e. strip ''/'' (path e))
                    (status_endpoints_combined (get_endpoints_combined paths))) \<longrightarrow>
           map fst (out_endpoints out) =
             map (\<lambda>e. strip ''/'' (path e))
               (status_endpoints_combined (get_endpoints_combined paths)))) \<and>
     (\<forall>log out. run_status net dsk doc = (log, Inr out) \<longrightarrow>
        log = map (\<lambda>e. base_url @ path e)
                (status_endpoints_status (get_endpoints_status paths)) \<and>
        successful_fetches_s (out_summary out) + failed_fetches_s (out_summary out) =
          length (status_endpoints_status (get_endpoints_status paths)) \<and>
        total_status_endpoints (out_summary out) =
          length (status_endpoints_status (get_endpoints_status paths)) \<and>
        map res_endpoint (summary_results (out_summary out)) =
          map path (status_endpoints_status (get_endpoints_status paths))) \<and>
     ((\<forall>n url err. net n url \<noteq> Inl (OtherException err) \<and>
          (\<forall>r. net n url = Inr r \<longrightarrow> resp_json r \<noteq> Inl (OtherException err))) \<and>
      (\<forall>n name. dsk n name = None) \<longrightarrow>
        (\<exists>out. run_status net dsk doc =
           (map (\<lambda>e. base_url @ path e)
              (status_endpoints_status (get_endpoints_status paths)), Inr out)) \<and>
        (\<forall>v. Option.bind (doc_info doc) info_version = Some v \<longrightarrow>
           (\<exists>out. run_combined net dsk doc =
              (map (\<lambda>e. base_url @ path e)
                 (status_endpoints_combined (get_endpoints_combined paths)), Inr out)))) \<and>
     (\<exists>k. fst (run_combined net dsk doc) =
        take k (map (\<lambda>e. base_url @ path e)
                  (status_endpoints_combined (get_endpoints_combined paths)))) \<and>
     (\<exists>k. fst (run_status net dsk doc) =
        take k (map (\<lambda>e. base_url @ path e)
                  (status_endpoints_status (get_endpoints_status paths))))"
proof -
  let ?clc = "status_endpoints_combined (get_endpoints_combined paths)"
  let ?cls = "status_endpoints_status (get_endpoints_status paths)"
  let ?url = "\<lambda>e. base_url @ path e"
  have combined: "log = map ?url ?clc \<and>
        successful_fetches (out_metadata out) + failed_fetches (out_metadata out) =
          length ?clc \<and>
        status_endpoints_fetched (out_metadata out) = length ?clc \<and>
        (distinct (map (\<lambda>e. strip ''/'' (path e)) ?clc) \<longrightarrow>
           map fst (out_endpoints out) = map (\<lambda>e. strip ''/'' (path e)) ?clc)"
    if run: "run_combined net dsk doc = (log, Inr out)" for log out
  proof -
    from run obtain paths' v st where p': "doc_paths doc = Some paths'"
      and loop': "fetch_loop_combined net
          (status_endpoints_combined (get_endpoints_combined paths')) combined_start = (st, None)"
      and log: "log = requests_log st"
      and eps: "out_endpoints out = endpoints st"
      and s: "successful_fetches (out_metadata out) = successful_count st"
      and f: "failed_fetches (out_metadata out) = failed_count st"
      and t': "status_endpoints_fetched (out_metadata out) =
           length (status_endpoints_combined (get_endpoints_combined paths'))"
      by (rule run_combined_Inr)
    have same: "paths' = paths" using p' assms by simp
    have loop: "fetch_loop_combined net ?clc combined_start = (st, None)"
      using loop' same by simp
    have "log = map ?url ?clc"
      using loop_combined_log [OF loop] log by (simp add: combined_start_def)
    moreover have "successful_count st + failed_count st = length ?clc"
      using loop_combined_counts [OF loop] by (simp add: combined_start_def)
    moreover have "map fst (endpoints st) = map (\<lambda>e. strip ''/'' (path e)) ?clc"
      if "distinct (map (\<lambda>e. strip ''/'' (path e)) ?clc)"
      using loop_combined_keylist [OF loop] that
      by (simp add: combined_start_def endpoint_key_of_def)
    ultimately show ?thesis using s f t' same eps by simp
  qed
  have status: "log = map ?url ?cls \<and>
        successful_fetches_s (out_summary out) + failed_fetches_s (out_summary out) =
          length ?cls \<and>
        total_status_endpoints (out_summary out) = length ?cls \<and>
        map res_endpoint (summary_results (out_summary out)) = map path ?cls"
    if run: "run_status net dsk doc = (log, Inr out)" for log out
  proof -
    from run obtain paths' st where p': "doc_paths doc = Some paths'"
      and loop': "fetch_loop_status net dsk
          (status_endpoints_status (get_endpoints_status paths')) status_start = (st, None)"
      and log: "log = issued_requests st"
      and res: "summary_results (out_summary out) = results st"
      and s: "successful_fetches_s (out_summary out) =
           length (filter (\<lambda>r. res_status r = ''success'') (results st))"
      and f: "failed_fetches_s (out_summary out) =
           length (filter (\<lambda>r. res_status r = ''error'') (results st))"
      and t': "total_status_endpoints (out_summary out) =
           length (status_endpoints_status (get_endpoints_status paths'))"
      by (rule run_status_Inr)
    have same: "paths' = paths" using p' assms by simp
    have loop: "fetch_loop_status net dsk ?cls status_start = (st, None)"
      using loop' same by simp
    have l: "log = map ?url ?cls"
      using loop_status_log [OF loop] log by (simp add: status_start_def)
    have e: "map res_endpoint (results st) = map path ?cls"
      using loop_status_endpoints [OF loop] by (simp add: status_start_def)
    have len: "length (results st) = length ?cls"
      using e by (metis length_map)
    have kind: "res_status r = ''success'' \<or> res_status r = ''error''"
      if "r \<in> set (results st)" for r
      by (rule loop_status_results
            [where Q = "\<lambda>r. res_status r = ''success'' \<or> res_status r = ''error''",
             OF _ _ loop _ that]) (simp_all add: status_start_def)
    have "filter (\<lambda>r. res_status r = ''error'') (results st) =
          filter (\<lambda>r. \<not> res_status r = ''success'') (results st)"
      by (rule filter_cong [OF refl]) (use kind in auto)
    then have "length (filter (\<lambda>r. res_status r = ''success'') (results st)) +
          length (filter (\<lambda>r. res_status r = ''error'') (results st)) = length ?cls"
      using sum_length_filter_compl [of "\<lambda>r. res_status r = ''success''" "results st"] len
      by simp
    then show ?thesis using l e s f t' same res by simp
  qed
  have completes:
    "(\<exists>out. run_status net dsk doc = (map ?url ?cls, Inr out)) \<and>
     (\<forall>v. Option.bind (doc_info doc) info_version = Some v \<longrightarrow>
        (\<exists>out. run_combined net dsk doc = (map ?url ?clc, Inr out)))"
    if quiet: "\<forall>n url err. net n url \<noteq> Inl (OtherException err) \<and>
          (\<forall>r. net n url = Inr r \<longrightarrow> resp_json r \<noteq> Inl (OtherException err))"
      and writes: "\<forall>n name. dsk n name = None"
  proof -
    have caught: "snd (try_get net issued url) \<noteq> Inl (OtherException err)" for issued url err
      using try_get_other [of net issued url err] quiet by blast
    have "snd (fetch_loop_status net dsk ?cls status_start) = None"
      by (rule loop_status_completes) (use caught writes in auto)
    then obtain st where ls: "fetch_loop_status net dsk ?cls status_start = (st, None)"
      by (cases "fetch_loop_status net dsk ?cls status_start") auto
    have "snd (fetch_loop_combined net ?clc combined_start) = None"
      by (rule loop_combined_completes) (use caught in auto)
    then obtain st' where lc: "fetch_loop_combined net ?clc combined_start = (st', None)"
      by (cases "fetch_loop_combined net ?clc combined_start") auto
    have "\<exists>out. run_status net dsk doc = (map ?url ?cls, Inr out)"
      using run_status_completes [OF assms ls] writes loop_status_log [OF ls]
      by (simp add: status_start_def)
    moreover have "\<exists>out. run_combined net dsk doc = (map ?url ?clc, Inr out)"
      if "Option.bind (doc_info doc) info_version = Some v" for v
      using run_combined_completes [OF assms that lc] writes loop_combined_log [OF lc]
      by (simp add: combined_start_def)
    ultimately show ?thesis by blast
  qed
  have pre_c: "\<exists>k. fst (run_combined net dsk doc) = take k (map ?url ?clc)"
  proof -
    obtain k where k: "requests_log (fst (fetch_loop_combined net ?clc combined_start)) =
        take k (map ?url ?clc)"
      using loop_combined_log_prefix [of net ?clc combined_start]
      by (auto simp: combined_start_def)
    have "fst (run_combined net dsk doc) = [] \<or>
          fst (run_combined net dsk doc) =
            requests_log (fst (fetch_loop_combined net ?clc combined_start))"
      using assms
      by (auto simp: run_combined_def subscript_def Let_def
          split: option.splits prod.splits)
    then show ?thesis
    proof
      assume "fst (run_combined net dsk doc) = []"
      then have "fst (run_combined net dsk doc) = take 0 (map ?url ?clc)" by simp
      then show ?thesis by blast
    next
      assume "fst (run_combined net dsk doc) =
            requests_log (fst (fetch_loop_combined net ?clc combined_start))"
      then show ?thesis using k by auto
    qed
  qed
  have pre_s: "\<exists>k. fst (run_status net dsk doc) = take k (map ?url ?cls)"
  proof -
    obtain k where k: "issued_requests (fst (fetch_loop_status net dsk ?cls status_start)) =
        take k (map ?url ?cls)"
      using loop_status_log_prefix [of net dsk ?cls status_start]
      by (auto simp: status_start_def)
    have "fst (run_status net dsk doc) =
            issued_requests (fst (fetch_loop_status net dsk ?cls status_start))"
      using assms
      by (auto simp: run_status_def subscript_def Let_def split: option.splits prod.splits)
    then show ?thesis using k by auto
  qed
  show ?thesis
    using combined status completes pre_c pre_s by blast
qed

theorem completed_run_fetched_every_endpoint_once_witness:
  "doc_paths demo_document = Some demo_paths \<and>
   Option.bind (doc_info demo_document) info_version = Some ''2.2.11'' \<and>
   (\<forall>n url err. demo_network n url \<noteq> Inl (OtherException err) \<and>
      (\<forall>r. demo_network n url = Inr r \<longrightarrow> resp_json r \<noteq> Inl (OtherException err))) \<and>
   (\<forall>n name. demo_disk n name = None) \<and>
   map path (status_endpoints_combined (get_endpoints_combined demo_paths)) =
     [''/equipment/camera/info'', ''/sequence/state''] \<and>
   map path (status_endpoints_status (get_endpoints_status demo_paths)) =
     [''/equipment/camera/info'', ''/sequence/state''] \<and>
   distinct (map (\<lambda>e. strip ''/'' (path e))
     (status_endpoints_combined (get_endpoints_combined demo_paths))) \<and>
   (\<exists>out. run_combined demo_network demo_disk demo_document =
        (map (\<lambda>e. base_url @ path e)
           (status_endpoints_combined (get_endpoints_combined demo_paths)), Inr out) \<and>
      successful_fetches (out_metadata out) + failed_fetches (out_metadata out) = 2 \<and>
      map fst (out_endpoints out) =
        map (\<lambda>e. strip ''/'' (path e))
          (status_endpoints_combined (get_endpoints_combined demo_paths))) \<and>
   (\<exists>out. run_status demo_network demo_disk demo_document =
        (map (\<lambda>e. base_url @ path e)
           (status_endpoints_status (get_endpoints_status demo_paths)), Inr out) \<and>
      successful_fetches_s (out_summary out) + failed_fetches_s (out_summary out) = 2 \<and>
      map res_endpoint (summary_results (out_summary out)) =
        [''/equipment/camera/info'', ''/sequence/state''])"
proof -
  have a: "doc_paths demo_document = Some demo_paths"
    by (simp add: demo_document_def)
  have b: "Option.bind (doc_info demo_document) info_version = Some ''2.2.11''"
    by (simp add: demo_document_def)
  have q: "\<forall>n url err. demo_network n url \<noteq> Inl (OtherException err) \<and>
      (\<forall>r. demo_network n url = Inr r \<longrightarrow> resp_json r \<noteq> Inl (OtherException err))"
    by (auto simp: demo_network_def split: if_splits)
  have w: "\<forall>n name. demo_disk n name = None"
    by (simp add: demo_disk_def)
  have c: "map path (status_endpoints_combined (get_endpoints_combined demo_paths)) =
     [''/equipment/camera/info'', ''/sequence/state'']"
    unfolding demo_paths_def by code_simp
  have s: "map path (status_endpoints_status (get_endpoints_status demo_paths)) =
     [''/equipment/camera/info'', ''/sequence/state'']"
    unfolding demo_paths_def by code_simp
  have d: "distinct (map (\<lambda>e. strip ''/'' (path e))
     (status_endpoints_combined (get_endpoints_combined demo_paths)))"
    unfolding demo_paths_def by code_simp
  have lc: "length (status_endpoints_combined (get_endpoints_combined demo_paths)) = 2"
    using c by (metis length_map length_Cons list.size(3) numeral_2_eq_2)
  have ls: "length (status_endpoints_status (get_endpoints_status demo_paths)) = 2"
    using s by (metis length_map length_Cons list.size(3) numeral_2_eq_2)
  note main = completed_run_fetched_every_endpoint_once
    [OF a, of demo_network demo_disk, unfolded lc ls]
  from main q w b obtain out where
    rc: "run_combined demo_network demo_disk demo_document =
       (map (\<lambda>e. base_url @ path e)
          (status_endpoints_combined (get_endpoints_combined demo_paths)), Inr out)"
    by blast
  from main q w obtain out' where
    rs: "run_status demo_network demo_disk demo_document =
       (map (\<lambda>e. base_url @ path e)
          (status_endpoints_status (get_endpoints_status demo_paths)), Inr out')"
    by blast
  from main rc d have
    "successful_fetches (out_metadata out) + failed_fetches (out_metadata out) = 2"
    "map fst (out_endpoints out) =
        map (\<lambda>e. strip ''/'' (path e))
          (status_endpoints_combined (get_endpoints_combined demo_paths))"
    by blast+
  moreover from main rs have
    "successful_fetches_s (out_summary out') + failed_fetches_s (out_summary out') = 2"
    "map res_endpoint (summary_results (out_summary out')) =
       map path (status_endpoints_status (get_endpoints_status demo_paths))"
    by blast+
  ultimately show ?thesis
    using a b q w c s d rc rs by (intro conjI exI [of _ out] exI [of _ out']) simp_all
qed

text \<open>
  C3 (counterexample). The device answers \<open>/equipment/camera/info\<close> with status 300 and a
  JSON body: \<open>raise_for_status\<close> lets 300 pass, so both scripts record a success whose
  status code is not of the 2xx class.
\<close>

theorem success_with_status_300:
  "map_of (out_endpoints (projr (snd (run_combined demo_network_300 demo_disk demo_document))))
      ''equipment/camera/info'' =
     Some \<lparr>entry_endpoint_info =
             endpoint_doc_of \<lparr>path = ''/equipment/camera/info'', summary = ''Camera info'',
                              description = '''', tags = [''Camera'']\<rparr>,
           entry_fetch_status =
             Some \<lparr>success = True, status_code = Some 300, error = None\<rparr>,
           entry_data = Some (JObj [])\<rparr> \<and>
   hd (summary_results
         (out_summary (projr (snd (run_status demo_network_300 demo_disk demo_document))))) =
     \<lparr>res_endpoint = ''/equipment/camera/info'', res_status = ''success'',
      res_filename = Some ''equipment_camera_info.json'', res_status_code = Some 300,
      res_error = None\<rparr> \<and>
   \<not> (200 \<le> (300::int) \<and> (300::int) < 300)"
  unfolding demo_document_def demo_paths_def by code_simp

text \<open>
  C3 (amended). In every outcome of a run: a success has no error message and a status code
  outside 400..599; a failure has no data (\<open>data\<close> is \<open>None\<close> in the combined document; no
  file name and no status code in the per-endpoint result, whose status is then \<open>error\<close>).
\<close>

theorem fetch_outcome_shape:
  "(run_combined net dsk doc = (log, Inr out) \<and> (k, e) \<in> set (out_endpoints out) \<longrightarrow>
      (\<exists>fs. entry_fetch_status e = Some fs \<and>
         (success fs \<longrightarrow>
            error fs = None \<and>
            (\<exists>sc. status_code fs = Some sc \<and> \<not> (400 \<le> sc \<and> sc < 600))) \<and>
         (\<not> success fs \<longrightarrow> entry_data e = Some JNull))) \<and>
   (run_status net dsk doc = (log', Inr out') \<and>
    r \<in> set (summary_results (out_summary out')) \<longrightarrow>
      (res_status r = ''success'' \<longrightarrow>
         res_error r = None \<and>
         (\<exists>sc. res_status_code r = Some sc \<and> \<not> (400 \<le> sc \<and> sc < 600))) \<and>
      (res_status r \<noteq> ''success'' \<longrightarrow>
         res_status r = ''error'' \<and> res_filename r = None \<and> res_status_code r = None))"
proof (rule conjI; rule impI; elim conjE)
  assume run: "run_combined net dsk doc = (log, Inr out)"
    and mem: "(k, e) \<in> set (out_endpoints out)"
  from run obtain paths st where
    loop: "fetch_loop_combined net (status_endpoints_combined (get_endpoints_combined paths))
             combined_start = (st, None)"
    and out: "out_endpoints out = endpoints st"
    by (rule run_combined_Inr)
  have "distinct (map fst (endpoints st))"
    by (rule loop_combined_distinct [OF loop]) (simp add: combined_start_def)
  then have look: "map_of (endpoints st) k = Some e"
    using mem out by simp
  show "\<exists>fs. entry_fetch_status e = Some fs \<and>
         (success fs \<longrightarrow>
            error fs = None \<and>
            (\<exists>sc. status_code fs = Some sc \<and> \<not> (400 \<le> sc \<and> sc < 600))) \<and>
         (\<not> success fs \<longrightarrow> entry_data e = Some JNull)"
    by (rule loop_combined_entries [OF _ _ loop _ look]) (simp_all add: combined_start_def)
next
  assume run: "run_status net dsk doc = (log', Inr out')"
    and mem: "r \<in> set (summary_results (out_summary out'))"
  from run obtain paths st where
    loop: "fetch_loop_status net dsk (status_endpoints_status (get_endpoints_status paths))
             status_start = (st, None)"
    and res: "summary_results (out_summary out') = results st"
    by (rule run_status_Inr)
  have mem': "r \<in> set (results st)" using mem res by simp
  show "(res_status r = ''success'' \<longrightarrow>
         res_error r = None \<and>
         (\<exists>sc. res_status_code r = Some sc \<and> \<not> (400 \<le> sc \<and> sc < 600))) \<and>
      (res_status r \<noteq> ''success'' \<longrightarrow>
         res_status r = ''error'' \<and> res_filename r = None \<and> res_status_code r = None)"
    by (rule loop_status_results [OF _ _ loop _ mem']) (simp_all add: status_start_def)
qed

theorem fetch_outcome_shape_witness:
  "run_combined demo_network demo_disk demo_document =
     (fst (run_combined demo_network demo_disk demo_document),
      Inr (projr (snd (run_combined demo_network demo_disk demo_document)))) \<and>
   (''sequence/state'',
    \<lparr>entry_endpoint_info =
       endpoint_doc_of \<lparr>path = ''/sequence/state'', summary = '''',
                        description = ''State'', tags = [''Sequence'']\<rparr>,
     entry_fetch_status =
       Some \<lparr>success = False, status_code = None,
             error = Some (TransportError ''timed out'')\<rparr>,
     entry_data = Some JNull\<rparr>)
     \<in> set (out_endpoints (projr (snd (run_combined demo_network demo_disk demo_document)))) \<and>
   run_status demo_network demo_disk demo_document =
     (fst (run_status demo_network demo_disk demo_document),
      Inr (projr (snd (run_status demo_network demo_disk demo_document)))) \<and>
   \<lparr>res_endpoint = ''/equipment/camera/info'', res_status = ''success'',
    res_filename = Some ''equipment_camera_info.json'', res_status_code = Some 200,
    res_error = None\<rparr>
     \<in> set (summary_results
              (out_summary (projr (snd (run_status demo_network demo_disk demo_document))))) \<and>
   (\<exists>sc. res_status_code
           \<lparr>res_endpoint = ''/equipment/camera/info'', res_status = ''success'',
            res_filename = Some ''equipment_camera_info.json'',
            res_status_code = Some 200, res_error = None\<rparr> = Some sc \<and>
         \<not> (400 \<le> sc \<and> sc < 600))"
proof -
  let ?e = "\<lparr>entry_endpoint_info =
       endpoint_doc_of \<lparr>path = ''/sequence/state'', summary = '''',
                        description = ''State'', tags = [''Sequence'']\<rparr>,
     entry_fetch_status =
       Some \<lparr>success = False, status_code = None,
             error = Some (TransportError ''timed out'')\<rparr>,
     entry_data = Some JNull\<rparr>"
  let ?r = "\<lparr>res_endpoint = ''/equipment/camera/info'', res_status = ''success'',
    res_filename = Some ''equipment_camera_info.json'', res_status_code = Some 200,
    res_error = None\<rparr>"
  have a: "run_combined demo_network demo_disk demo_document =
     (fst (run_combined demo_network demo_disk demo_document),
      Inr (projr (snd (run_combined demo_network demo_disk demo_document))))"
    by code_simp
  have b: "(''sequence/state'', ?e)
     \<in> set (out_endpoints (projr (snd (run_combined demo_network demo_disk demo_document))))"
    by code_simp
  have c: "run_status demo_network demo_disk demo_document =
     (fst (run_status demo_network demo_disk demo_document),
      Inr (projr (snd (run_status demo_network demo_disk demo_document))))"
    by code_simp
  have d: "?r \<in> set (summary_results
              (out_summary (projr (snd (run_status demo_network demo_disk demo_document)))))"
    by code_simp
  have "\<exists>sc. res_status_code ?r = Some sc \<and> \<not> (400 \<le> sc \<and> sc < 600)"
    using fetch_outcome_shape [of demo_network demo_disk demo_document
        "fst (run_combined demo_network demo_disk demo_document)"
        "projr (snd (run_combined demo_network demo_disk demo_document))"
        "''sequence/state''" ?e
        "fst (run_status demo_network demo_disk demo_document)"
        "projr (snd (run_status demo_network demo_disk demo_document))" ?r] a b c d
    by simp
  then show ?thesis using a b c d by blast
qed

section \<open>Endpoint keys of the combined document\<close>

text \<open>
  C9. In a run of \<open>fetch_astromele3_combined.py\<close> the keys of the \<open>endpoints\<close> map are the
  classified paths with all leading and trailing slashes stripped, each key once. The entry
  under a key describes the last classified endpoint whose path strips to that key: an
  earlier endpoint with the same key is overwritten. The map therefore never has more
  entries than there are classified endpoints, and there is a run in which it has fewer.
\<close>

theorem endpoint_key_overwrite:
  assumes "run_combined net dsk doc = (log, Inr out)" and "doc_paths doc = Some paths"
  shows
    "fst ` set (out_endpoints out) =
       (\<lambda>ep. strip ''/'' (path ep)) ` set (status_endpoints_combined (get_endpoints_combined paths)) \<and>
     distinct (map fst (out_endpoints out)) \<and>
     (\<forall>k e. (k, e) \<in> set (out_endpoints out) \<longrightarrow>
        doc_path (entry_endpoint_info e) =
          path (last (filter (\<lambda>ep. strip ''/'' (path ep) = k)
                        (status_endpoints_combined (get_endpoints_combined paths))))) \<and>
     length (out_endpoints out) \<le>
       length (status_endpoints_combined (get_endpoints_combined paths)) \<and>
     (\<exists>net' dsk' doc' log' out'. run_combined net' dsk' doc' = (log', Inr out') \<and>
        length (out_endpoints out') < status_endpoints_fetched (out_metadata out'))"
proof -
  let ?cl = "status_endpoints_combined (get_endpoints_combined paths)"
  from assms(1) obtain paths' st where p': "doc_paths doc = Some paths'"
    and loop': "fetch_loop_combined net
        (status_endpoints_combined (get_endpoints_combined paths')) combined_start = (st, None)"
    and out: "out_endpoints out = endpoints st"
    by (rule run_combined_Inr)
  have loop: "fetch_loop_combined net ?cl combined_start = (st, None)"
    using loop' p' assms(2) by simp
  have keys: "fst ` set (endpoints st) = (\<lambda>ep. strip ''/'' (path ep)) ` set ?cl"
    using loop_combined_keys [OF loop] by (simp add: combined_start_def endpoint_key_of_def)
  have dist: "distinct (map fst (endpoints st))"
    by (rule loop_combined_distinct [OF loop]) (simp add: combined_start_def)
  have last: "doc_path (entry_endpoint_info e) =
      path (last (filter (\<lambda>ep. strip ''/'' (path ep) = k) ?cl))"
    if "(k, e) \<in> set (endpoints st)" for k e
  proof -
    have look: "map_of (endpoints st) k = Some e"
      using that dist by simp
    have "k \<in> (\<lambda>ep. strip ''/'' (path ep)) ` set ?cl"
      using that keys by force
    then have "filter (\<lambda>ep. endpoint_key_of (path ep) = k) ?cl \<noteq> []"
      by (auto simp: filter_empty_conv endpoint_key_of_def)
    from loop_combined_last_writer [OF loop look this] show ?thesis
      by (simp add: endpoint_key_of_def)
  qed
  have "length (endpoints st) = card (fst ` set (endpoints st))"
    using dist by (metis distinct_card length_map set_map)
  also have "\<dots> \<le> card (set ?cl)"
    unfolding keys by (rule card_image_le) simp
  also have "\<dots> \<le> length ?cl"
    by (rule card_length)
  finally have len: "length (endpoints st) \<le> length ?cl" .
  have "run_combined demo_network demo_disk demo_slash_document =
          (fst (run_combined demo_network demo_disk demo_slash_document),
           Inr (projr (snd (run_combined demo_network demo_disk demo_slash_document)))) \<and>
        length (out_endpoints (projr (snd (run_combined demo_network demo_disk demo_slash_document)))) <
          status_endpoints_fetched
            (out_metadata (projr (snd (run_combined demo_network demo_disk demo_slash_document))))"
    by code_simp
  then have fewer: "\<exists>net' dsk' doc' log' out'. run_combined net' dsk' doc' = (log', Inr out') \<and>
        length (out_endpoints out') < status_endpoints_fetched (out_metadata out')"
    by blast
  show ?thesis
    unfolding out using keys dist last len fewer by blast
qed

theorem endpoint_key_overwrite_witness:
  "run_combined demo_network demo_disk demo_slash_document =
     (fst (run_combined demo_network demo_disk demo_slash_document),
      Inr (projr (snd (run_combined demo_network demo_disk demo_slash_document)))) \<and>
   doc_paths demo_slash_document = Some demo_slash_paths \<and>
   map path (status_endpoints_combined (get_endpoints_combined demo_slash_paths)) =
     [''/image/history'', ''/image/history/'', ''image/history/'', ''/image_history''] \<and>
   map (\<lambda>(k, e). (k, doc_path (entry_endpoint_info e), doc_summary (entry_endpoint_info e)))
     (out_endpoints (projr (snd (run_combined demo_network demo_disk demo_slash_document)))) =
     [(''image/history'', ''image/history/'', ''third''),
      (''image_history'', ''/image_history'', ''fourth'')] \<and>
   distinct (map fst
     (out_endpoints (projr (snd (run_combined demo_network demo_disk demo_slash_document)))))"
proof -
  have a: "run_combined demo_network demo_disk demo_slash_document =
     (fst (run_combined demo_network demo_disk demo_slash_document),
      Inr (projr (snd (run_combined demo_network demo_disk demo_slash_document))))"
    by code_simp
  have b: "doc_paths demo_slash_document = Some demo_slash_paths"
    by (simp add: demo_slash_document_def)
  have c: "map path (status_endpoints_combined (get_endpoints_combined demo_slash_paths)) =
     [''/image/history'', ''/image/history/'', ''image/history/'', ''/image_history'']"
    by code_simp
  have d: "map (\<lambda>(k, e). (k, doc_path (entry_endpoint_info e), doc_summary (entry_endpoint_info e)))
     (out_endpoints (projr (snd (run_combined demo_network demo_disk demo_slash_document)))) =
     [(''image/history'', ''image/history/'', ''third''),
      (''image_history'', ''/image_history'', ''fourth'')]"
    by code_simp
  show ?thesis
    using endpoint_key_overwrite [OF a b] a b c d by blast
qed

section \<open>The grouped report\<close>

lemma group_step_lookup:
  "map_of (AList.map_entry c (\<lambda>l. l @ [ep])
             (if map_of bc c = None then AList.update c [] bc else bc)) =
     (map_of bc)(c \<mapsto> (case map_of bc c of None \<Rightarrow> [] | Some l \<Rightarrow> l) @ [ep])"
  by (auto simp: map_of_map_entry update_conv' fun_eq_iff split: option.splits)

lemma group_step_keys:
  "fst ` set (AList.map_entry c f (if map_of bc c = None then AList.update c [] bc else bc)) =
     insert c (fst ` set bc)"
  by (auto simp: dom_map_entry dom_update map_of_eq_None_iff)

lemma group_step_distinct:
  "distinct (map fst bc) \<Longrightarrow>
     distinct (map fst (AList.map_entry c f
        (if map_of bc c = None then AList.update c [] bc else bc)))"
  by (simp add: distinct_map_entry distinct_update)

lemma group_keys:
  "fst ` set (group_by_category eps bc) = fst ` set bc \<union> category_of ` set eps"
  by (induction eps arbitrary: bc) (simp_all add: Let_def group_step_keys)

lemma group_distinct:
  "distinct (map fst bc) \<Longrightarrow> distinct (map fst (group_by_category eps bc))"
  by (induction eps arbitrary: bc) (simp_all add: Let_def group_step_distinct)

lemma group_members:
  "(case map_of (group_by_category eps bc) c of None \<Rightarrow> [] | Some l \<Rightarrow> l) =
     (case map_of bc c of None \<Rightarrow> [] | Some l \<Rightarrow> l) @ filter (\<lambda>e. category_of e = c) eps"
proof (induction eps arbitrary: bc)
  case Nil
  show ?case by simp
next
  case (Cons ep eps)
  show ?case
    by (simp add: Let_def Cons.IH group_step_lookup)
qed

lemma group_from_empty:
  assumes "(c, members) \<in> set (group_by_category eps [])"
  shows "members = filter (\<lambda>e. category_of e = c) eps"
proof -
  have "distinct (map fst (group_by_category eps []))"
    by (rule group_distinct) simp
  then have "map_of (group_by_category eps []) c = Some members"
    using assms by simp
  then show ?thesis
    using group_members [of eps "[]" c] by simp
qed

lemma write_report_blocks:
  "sorted (map block_category (write_report eps E)) \<and>
   distinct (map block_category (write_report eps E)) \<and>
   set (map block_category (write_report eps E)) = category_of ` set eps \<and>
   (\<forall>b \<in> set (write_report eps E).
      map rep_path (block_entries b) =
        map path (sort_key path (filter (\<lambda>e. category_of e = block_category b) eps)) \<and>
      sorted (map rep_path (block_entries b)))"
proof -
  let ?G = "group_by_category eps []"
  let ?S = "sort_key fst ?G"
  have cats: "map block_category (write_report eps E) = map fst ?S"
    by (simp add: write_report_def comp_def case_prod_unfold)
  have "mset (map fst ?S) = mset (map fst ?G)"
    by simp
  moreover have "distinct (map fst ?G)"
    by (rule group_distinct) simp
  ultimately have d: "distinct (map fst ?S)"
    by (metis mset_eq_imp_distinct_iff)
  have s: "sorted (map fst ?S)"
    by (rule sorted_sort_key)
  have k: "set (map fst ?S) = category_of ` set eps"
    using group_keys [of eps "[]"] by simp
  have blocks: "map rep_path (block_entries b) =
        map path (sort_key path (filter (\<lambda>e. category_of e = block_category b) eps)) \<and>
      sorted (map rep_path (block_entries b))"
    if "b \<in> set (write_report eps E)" for b
  proof -
    have "b \<in> (\<lambda>(category, members).
            \<lparr>block_category = category, block_header = upper category,
             block_entries = map (report_entry_of E) (sort_key path members)\<rparr>) ` set ?S"
      using that unfolding write_report_def set_map .
    then obtain cm where in_S: "cm \<in> set ?S"
      and b_cm: "b = (case cm of (category, members) \<Rightarrow>
            \<lparr>block_category = category, block_header = upper category,
             block_entries = map (report_entry_of E) (sort_key path members)\<rparr>)"
      by (rule imageE)
    obtain c members where pair: "cm = (c, members)"
      by (cases cm)
    have cm: "(c, members) \<in> set ?G"
      using in_S pair by simp
    have b: "b = \<lparr>block_category = c, block_header = upper c,
                   block_entries = map (report_entry_of E) (sort_key path members)\<rparr>"
      using b_cm pair by simp
    have m: "members = filter (\<lambda>e. category_of e = c) eps"
      using cm group_from_empty by simp
    have rp: "rep_path \<circ> report_entry_of E = path"
      by (simp add: report_entry_of_def fun_eq_iff)
    have e: "map rep_path (block_entries b) = map path (sort_key path members)"
      unfolding b by (simp add: rp)
    have c: "block_category b = c"
      unfolding b by simp
    show ?thesis
      unfolding e c using sorted_sort_key [of path members] unfolding m by blast
  qed
  show ?thesis
    unfolding cats using s d k blocks by blast
qed

text \<open>
  C7. In the report of a run of the combined script, with \<open>\<le>\<close> on strings the
  lexicographic order by character code that Python's \<open>sorted\<close> uses: the blocks are in
  ascending order of category and no category occurs twice; the categories are exactly the
  first tags of the classified endpoints, \<open>Other\<close> standing in for an endpoint without tags;
  and the entries of a block are the classified endpoints of that category, sorted by path.
\<close>

theorem report_grouped_and_sorted:
  assumes "run_combined net dsk doc = (log, Inr out)" and "doc_paths doc = Some paths"
  shows
    "sorted (map block_category (out_report out)) \<and>
     distinct (map block_category (out_report out)) \<and>
     set (map block_category (out_report out)) =
       (\<lambda>e. case tags e of [] \<Rightarrow> ''Other'' | t # _ \<Rightarrow> t) `
         set (status_endpoints_combined (get_endpoints_combined paths)) \<and>
     (\<forall>b \<in> set (out_report out).
        map rep_path (block_entries b) =
          map path (sort_key path
            (filter (\<lambda>e. (case tags e of [] \<Rightarrow> ''Other'' | t # _ \<Rightarrow> t) = block_category b)
               (status_endpoints_combined (get_endpoints_combined paths)))) \<and>
        sorted (map rep_path (block_entries b)))"
proof -
  let ?cl = "status_endpoints_combined (get_endpoints_combined paths)"
  from assms(1) obtain paths' st where p': "doc_paths doc = Some paths'"
    and "fetch_loop_combined net
        (status_endpoints_combined (get_endpoints_combined paths')) combined_start = (st, None)"
    and rep: "out_report out =
        write_report (status_endpoints_combined (get_endpoints_combined paths')) (endpoints st)"
    by (rule run_combined_Inr)
  have out: "out_report out = write_report ?cl (endpoints st)"
    using rep p' assms(2) by simp
  have cat: "category_of = (\<lambda>e. case tags e of [] \<Rightarrow> ''Other'' | t # _ \<Rightarrow> t)"
    by (simp add: category_of_def fun_eq_iff)
  show ?thesis
    unfolding out
    using write_report_blocks [of ?cl "endpoints st"]
    unfolding cat .
qed

theorem report_grouped_and_sorted_witness:
  "run_combined demo_network demo_disk demo_report_document =
     (fst (run_combined demo_network demo_disk demo_report_document),
      Inr (projr (snd (run_combined demo_network demo_disk demo_report_document)))) \<and>
   doc_paths demo_report_document = Some (the (doc_paths demo_report_document)) \<and>
   map path (status_endpoints_combined
      (get_endpoints_combined (the (doc_paths demo_report_document)))) =
     [''/version'', ''/time'', ''/equipment/mount/info'', ''/equipment/camera/info'',
      ''/equipment/dome/info''] \<and>
   map (\<lambda>b. (block_category b, block_header b, map rep_path (block_entries b)))
     (out_report (projr (snd (run_combined demo_network demo_disk demo_report_document)))) =
     [(''Application'', ''APPLICATION'', [''/version'']),
      (''Equipment'', ''EQUIPMENT'', [''/equipment/camera/info'', ''/equipment/mount/info'']),
      (''Other'', ''OTHER'', [''/equipment/dome/info'', ''/time''])] \<and>
   sorted (map block_category
     (out_report (projr (snd (run_combined demo_network demo_disk demo_report_document)))))"
proof -
  have a: "run_combined demo_network demo_disk demo_report_document =
     (fst (run_combined demo_network demo_disk demo_report_document),
      Inr (projr (snd (run_combined demo_network demo_disk demo_report_document))))"
    by code_simp
  have b: "doc_paths demo_report_document = Some (the (doc_paths demo_report_document))"
    by (simp add: demo_report_document_def)
  have c: "map path (status_endpoints_combined
      (get_endpoints_combined (the (doc_paths demo_report_document)))) =
     [''/version'', ''/time'', ''/equipment/mount/info'', ''/equipment/camera/info'',
      ''/equipment/dome/info'']"
    by code_simp
  have d: "map (\<lambda>b. (block_category b, block_header b, map rep_path (block_entries b)))
     (out_report (projr (snd (run_combined demo_network demo_disk demo_report_document)))) =
     [(''Application'', ''APPLICATION'', [''/version'']),
      (''Equipment'', ''EQUIPMENT'', [''/equipment/camera/info'', ''/equipment/mount/info'']),
      (''Other'', ''OTHER'', [''/equipment/dome/info'', ''/time''])]"
    by code_simp
  show ?thesis
    using report_grouped_and_sorted [OF a b] a b c d by blast
qed

end
